theory Spec2Isabelle
  imports Main "HOL-Library.AList" "HOL-Library.Sublist"
begin

section \<open>JavaScript values, objects and strings\<close>

text \<open>
  Values of the program. An object is the list of its own enumerable properties; a
  property assignment \<open>o[k] = v\<close> is \<open>AList.update k v\<close>, which overwrites an
  existing property in place and appends a new one. \<open>Func n\<close> is a function value,
  named by the property it was defined under.
\<close>

datatype jsval =
    Undefined
  | Null
  | Bool bool
  | Num int
  | Str string
  | Func string
  | Arr "jsval list"
  | Obj "(string \<times> jsval) list"

type_synonym jsobj = "(string \<times> jsval) list"

datatype error =
    Error string  \<comment> \<open>\<open>throw new Error(message)\<close>\<close>
  | TypeError     \<comment> \<open>raised by the runtime: call of a non-function, property write on a non-object\<close>
  | RangeError    \<comment> \<open>raised by the runtime: call stack exhausted\<close>

subsection \<open>Own keys, in the order JavaScript enumerates them\<close>

definition is_digit :: "char \<Rightarrow> bool" where
  "is_digit c = (c \<in> set ''0123456789'')"

definition parse_nat :: "string \<Rightarrow> nat" where
  "parse_nat s = foldl (\<lambda>n c. 10 * n + (of_char c - 48)) 0 s"

definition is_array_index :: "string \<Rightarrow> bool" where
  "is_array_index s =
     (s \<noteq> [] \<and> list_all is_digit s \<and> (length s = 1 \<or> hd s \<noteq> CHR ''0'')
      \<and> parse_nat s < 4294967295)"

text \<open>\<open>_.keys(obj)\<close>: integer-like keys ascending, then the other keys as created.\<close>

definition keys :: "jsobj \<Rightarrow> string list" where
  "keys obj =
     (let ks = map fst obj
      in sort_key parse_nat (filter is_array_index ks) @ filter (\<lambda>k. \<not> is_array_index k) ks)"

fun join :: "string \<Rightarrow> string list \<Rightarrow> string" where
  "join sep [] = []"
| "join sep [x] = x"
| "join sep (x # y # ys) = x @ sep @ join sep (y # ys)"

subsection \<open>String operations\<close>

text \<open>\<open>s.indexOf(needle)\<close>: the first position where \<open>needle\<close> starts, or -1.\<close>

fun indexOf :: "string \<Rightarrow> string \<Rightarrow> int" where
  "indexOf [] needle = (if needle = [] then 0 else - 1)"
| "indexOf (c # cs) needle =
     (if prefix needle (c # cs) then 0
      else (let i = indexOf cs needle in if i < 0 then - 1 else i + 1))"

text \<open>\<open>s.substring(a, b)\<close>: both indices clamped to the string, swapped if out of order.\<close>

definition substring :: "string \<Rightarrow> int \<Rightarrow> int \<Rightarrow> string" where
  "substring s a b =
     (let n = int (length s);
          a' = max 0 (min a n);
          b' = max 0 (min b n)
      in take (nat (max a' b' - min a' b')) (drop (nat (min a' b')) s))"

fun split :: "char \<Rightarrow> string \<Rightarrow> string list" where
  "split sep [] = [[]]"
| "split sep (c # cs) =
     (if c = sep then [] # split sep cs
      else (case split sep cs of
              [] \<Rightarrow> [[c]]
            | w # ws \<Rightarrow> (c # w) # ws))"

definition is_space :: "char \<Rightarrow> bool" where
  "is_space c = (c \<in> set [CHR '' '', CHR 0x09, CHR 0x0A, CHR 0x0B, CHR 0x0C, CHR 0x0D])"

definition trim :: "string \<Rightarrow> string" where
  "trim s = rev (dropWhile is_space (rev (dropWhile is_space s)))"

text \<open>A number converted to a string, as in \<open>"[" + i + "] "\<close>.\<close>

function show_nat :: "nat \<Rightarrow> string" where
  "show_nat n =
     (if n < 10 then [''0123456789'' ! n]
      else show_nat (n div 10) @ [''0123456789'' ! (n mod 10)])"
  by pat_completeness auto
termination
  by (relation "measure id") auto

declare show_nat.simps [simp del]

section \<open>The store of \<open>src/Store.ts\<close>\<close>

text \<open>
  What the module reads from outside: the process-wide development-mode flag
  (\<open>isTyduxDevelopmentModeEnabled()\<close>) and the message texts of \<open>./error-messages\<close>.
\<close>

record env =
  devMode :: bool
  mutatorHasInstanceMembers :: string
  mutatorWrongReturnType :: string

record MutatorEvent =
  ev_storeId :: jsval
  ev_action :: jsobj
  ev_state :: jsval
  ev_duration :: "int option"

text \<open>
  \<open>failIfInstanceMembersExistExceptState\<close>: \<open>indexOf\<close> and \<open>splice\<close> drop the
  first \<open>"state"\<close>; any key left is reported.
\<close>

definition failIfInstanceMembersExistExceptState :: "env \<Rightarrow> jsobj \<Rightarrow> error + unit" where
  "failIfInstanceMembersExistExceptState env obj =
     (let members = keys obj;
          members = (if ''state'' \<in> set members then remove1 ''state'' members else members)
      in if length members > 0
         then Inl (Error (mutatorHasInstanceMembers env @ '': '' @ join '','' members))
         else Inr ())"

text \<open>
  \<open>createActionFromArguments\<close>: the parameter names are cut out of the function's
  source text \<open>fnString\<close>, between the first \<open>(\<close> and the first \<open>)\<close>; a supplied
  argument beyond the parsed names is keyed with \<open>undefined\<close>.
\<close>

definition createActionFromArguments :: "string \<Rightarrow> string \<Rightarrow> jsval list \<Rightarrow> jsobj" where
  "createActionFromArguments actionTypeName fnString args =
     (let argsString = substring fnString (indexOf fnString ''('' + 1) (indexOf fnString '')'');
          argNames = map trim (split CHR '','' argsString);
          action = fold (\<lambda>i action.
                      AList.update
                        (''['' @ show_nat i @ ''] ''
                           @ (if i < length argNames then argNames ! i else ''undefined''))
                        (args ! i) action)
                     [0..<length args] []
      in AList.update ''type'' (Str actionTypeName) action)"

subsection \<open>Mutator methods\<close>

text \<open>
  A mutator method is user code. Its body is a sequence of the actions such code takes
  on its \<open>this\<close>: writes through \<open>this.state\<close>, assignment of a new \<open>this.state\<close>,
  creation of another member of \<open>this\<close>, calls of sibling mutators as \<open>this.m(...)\<close>,
  conditional throws, and \<open>return\<close>. Expressions may read the arguments and the
  current \<open>this.state\<close>. \<open>Wait\<close> lets time pass.
\<close>

datatype stmt =
    SetStateProp string "jsval list \<Rightarrow> jsval \<Rightarrow> jsval"  \<comment> \<open>\<open>this.state.k = e\<close>\<close>
  | AssignState "jsval list \<Rightarrow> jsval \<Rightarrow> jsval"         \<comment> \<open>\<open>this.state = e\<close>\<close>
  | SetMember string jsval                                    \<comment> \<open>\<open>(this as any).k = v\<close>\<close>
  | CallMutator string "jsval list"                           \<comment> \<open>\<open>this.m(a, ...)\<close>\<close>
  | ThrowIf "jsval list \<Rightarrow> jsval \<Rightarrow> bool" string          \<comment> \<open>\<open>if (c) throw new Error(msg)\<close>\<close>
  | Return jsval                                              \<comment> \<open>\<open>return v\<close>\<close>
  | Wait nat

record mutatorFn =
  fn_source :: string      \<comment> \<open>\<open>fn.toString()\<close>\<close>
  fn_body :: "stmt list"

record mutatorInstance =
  own_members :: jsobj                          \<comment> \<open>own enumerable data properties\<close>
  methods :: "(string \<times> mutatorFn) list"         \<comment> \<open>\<open>_.functionsIn\<close>: the enumerable methods\<close>

subsection \<open>The store object\<close>

text \<open>
  \<open>mutatorEvents\<close> lists the values passed to \<open>mutatorEventsSubject.next\<close>, oldest
  first. \<open>proxyObj\<close> holds the own properties of the proxy \<open>this.mutate\<close>, \<open>thisObj\<close>
  those of the \<open>this\<close> object of the running call tree (\<open>tempThisObj\<close>, whose
  prototype is \<open>proxyObj\<close>), \<open>mutatorFns\<close> the methods behind the wrappers on
  \<open>proxyProto\<close>, and \<open>now\<close> is what \<open>Date.now()\<close> returns.
\<close>

record store =
  storeId :: string
  store_state :: jsval
  mutatorCallStackCount :: nat
  mutatorEvents :: "MutatorEvent list"
  proxyObj :: jsobj
  thisObj :: jsobj
  mutatorFns :: "(string \<times> mutatorFn) list"
  now :: int

text \<open>
  Modelled from the spec: \<open>createProxy\<close>, \<open>deepFreeze\<close> and \<open>failIfNotUndefined\<close>
  are imported by \<open>Store.ts\<close> from modules that are not among the sources. The draft
  is "a separate, temporary, exclusively-owned copy" through which the properties of
  the committed state read unchanged; deep-freezing makes a value read-only and leaves
  its properties as they are; a method "must return no value". \<open>failIfNotUndefined\<close>
  is taken here as making its test whenever it is called; \<open>Store.ts\<close> does not say
  what the helper does with the development-mode flag, and \<open>mutator_wrapper\<close> below
  leaves the helper open.
\<close>

definition createProxy :: "jsval \<Rightarrow> jsval" where
  "createProxy target = target"

definition deepFreeze :: "jsval \<Rightarrow> jsval" where
  "deepFreeze state = state"

definition failIfNotUndefined :: "env \<Rightarrow> jsval \<Rightarrow> error + unit" where
  "failIfNotUndefined env v =
     (if v \<noteq> Undefined then Inl (Error (mutatorWrongReturnType env)) else Inr ())"

text \<open>Property reads along the prototype chain \<open>tempThisObj \<rightarrow> proxyObj \<rightarrow> proxyProto\<close>.\<close>

definition get_proxyObj :: "store \<Rightarrow> string \<Rightarrow> jsval" where
  "get_proxyObj w k =
     (case map_of (proxyObj w) k of
        Some v \<Rightarrow> v
      | None \<Rightarrow> (if k \<in> set (map fst (mutatorFns w)) then Func k else Undefined))"

definition get_thisObj :: "store \<Rightarrow> string \<Rightarrow> jsval" where
  "get_thisObj w k =
     (case map_of (thisObj w) k of
        Some v \<Rightarrow> v
      | None \<Rightarrow> get_proxyObj w k)"

definition setState :: "env \<Rightarrow> jsval \<Rightarrow> store \<Rightarrow> store" where
  "setState env state w =
     w\<lparr>store_state := (if devMode env then deepFreeze state else state)\<rparr>"

definition processMutator :: "env \<Rightarrow> MutatorEvent \<Rightarrow> store \<Rightarrow> store" where
  "processMutator env mutatorEvent w =
     (let w1 = setState env (ev_state mutatorEvent) w
      in w1\<lparr>mutatorEvents := mutatorEvents w1 @ [mutatorEvent]\<rparr>)"

text \<open>
  \<open>mutateState\<close>. The callback returns its outcome together with the store as it
  left it: a throw does not undo what ran before it. The \<open>finally\<close> block is the
  last update.
\<close>

definition mutateState ::
  "env \<Rightarrow> (jsval \<Rightarrow> bool \<Rightarrow> store \<Rightarrow> (error + MutatorEvent) \<times> store) \<Rightarrow> store
     \<Rightarrow> (error + unit) \<times> store" where
  "mutateState env fn w =
     (let isRoot = (mutatorCallStackCount w = 0);
          w1 = w\<lparr>mutatorCallStackCount := mutatorCallStackCount w + 1\<rparr>;
          stateProxy = createProxy (store_state w1);
          start = (if devMode env then now w1 else 0);
          (r, w2) = fn stateProxy isRoot w1;
          (r', w3) =
            (case r of
               Inl e \<Rightarrow> (Inl e, w2)
             | Inr mutatorEvent \<Rightarrow>
                 (let mutatorEvent =
                        (if devMode env
                         then mutatorEvent\<lparr>ev_duration := Some (now w2 - start)\<rparr>
                         else mutatorEvent)
                  in (Inr (), if isRoot then processMutator env mutatorEvent w2 else w2)))
      in (r', w3\<lparr>mutatorCallStackCount := mutatorCallStackCount w3 - 1\<rparr>))"

text \<open>
  The callback that the wrapper hands to \<open>mutateState\<close>, in its two halves around
  \<open>mutatorFn.apply(thisObj, args)\<close>. Before: a root call stores the draft on
  \<open>proxyObj\<close> and starts from a fresh \<open>tempThisObj\<close>; a nested call keeps the
  \<open>this\<close> it was called on. After: the two checks, the state written back to
  \<open>proxyObj\<close>, and the event. The event reads \<open>storeId\<close> from the receiver of the
  wrapper: \<open>proxyObj\<close> for a call through \<open>this.mutate\<close>, the caller's \<open>this\<close>
  for a call from a mutator body.
\<close>

definition call_enter :: "bool \<Rightarrow> jsval \<Rightarrow> store \<Rightarrow> store" where
  "call_enter isRootCall oldState w =
     (if isRootCall
      then w\<lparr>proxyObj := AList.update ''state'' oldState (proxyObj w), thisObj := []\<rparr>
      else w)"

definition call_leave ::
  "env \<Rightarrow> bool \<Rightarrow> string \<Rightarrow> mutatorFn \<Rightarrow> jsval list \<Rightarrow> jsval \<Rightarrow> store
     \<Rightarrow> (error + MutatorEvent) \<times> store" where
  "call_leave env isRootCall mutatorName mutatorFn args result w =
     (case failIfNotUndefined env result of
        Inl e \<Rightarrow> (Inl e, w)
      | Inr _ \<Rightarrow>
          (case failIfInstanceMembersExistExceptState env (thisObj w) of
             Inl e \<Rightarrow> (Inl e, w)
           | Inr _ \<Rightarrow>
               (let w' = w\<lparr>proxyObj :=
                            AList.update ''state'' (get_thisObj w ''state'') (proxyObj w)\<rparr>;
                    mutatorEvent =
                      \<lparr>ev_storeId =
                         (if isRootCall then get_proxyObj w' ''storeId''
                          else get_thisObj w' ''storeId''),
                       ev_action =
                         createActionFromArguments mutatorName (fn_source mutatorFn) args,
                       ev_state = get_proxyObj w' ''state'',
                       ev_duration = None\<rparr>
                in (Inr mutatorEvent, w'))))"

text \<open>
  The body of a mutator method run on \<open>thisObj\<close> (\<open>exec_stmts\<close>), and the wrapper that
  \<open>createMutatorsProxy\<close> installs for \<open>mutatorName\<close> (\<open>invoke\<close>). The first argument
  is the depth of call stack left; at 0 the runtime throws. The wrapper returns
  \<open>result\<close>, which has passed \<open>failIfNotUndefined\<close>.
\<close>

fun exec_stmts :: "nat \<Rightarrow> env \<Rightarrow> jsval list \<Rightarrow> stmt list \<Rightarrow> store \<Rightarrow> (error + jsval) \<times> store"
and invoke :: "nat \<Rightarrow> env \<Rightarrow> string \<Rightarrow> jsval list \<Rightarrow> store \<Rightarrow> (error + jsval) \<times> store"
where
  "exec_stmts fuel env args [] w = (Inr Undefined, w)"
| "exec_stmts fuel env args (SetStateProp k e # rest) w =
     (case get_thisObj w ''state'' of
        Obj props \<Rightarrow>
          (let s' = Obj (AList.update k (e args (Obj props)) props)
           in exec_stmts fuel env args rest
                (if ''state'' \<in> set (map fst (thisObj w))
                 then w\<lparr>thisObj := AList.update ''state'' s' (thisObj w)\<rparr>
                 else w\<lparr>proxyObj := AList.update ''state'' s' (proxyObj w)\<rparr>))
      | _ \<Rightarrow> (Inl TypeError, w))"
| "exec_stmts fuel env args (AssignState e # rest) w =
     exec_stmts fuel env args rest
       (w\<lparr>thisObj := AList.update ''state'' (e args (get_thisObj w ''state'')) (thisObj w)\<rparr>)"
| "exec_stmts fuel env args (SetMember k v # rest) w =
     exec_stmts fuel env args rest (w\<lparr>thisObj := AList.update k v (thisObj w)\<rparr>)"
| "exec_stmts fuel env args (CallMutator m as # rest) w =
     (case invoke fuel env m as w of
        (Inl e, w') \<Rightarrow> (Inl e, w')
      | (Inr _, w') \<Rightarrow> exec_stmts fuel env args rest w')"
| "exec_stmts fuel env args (ThrowIf c msg # rest) w =
     (if c args (get_thisObj w ''state'') then (Inl (Error msg), w)
      else exec_stmts fuel env args rest w)"
| "exec_stmts fuel env args (Return v # rest) w = (Inr v, w)"
| "exec_stmts fuel env args (Wait n # rest) w =
     exec_stmts fuel env args rest (w\<lparr>now := now w + int n\<rparr>)"
| "invoke 0 env mutatorName args w = (Inl RangeError, w)"
| "invoke (Suc fuel) env mutatorName args w =
     (case map_of (mutatorFns w) mutatorName of
        None \<Rightarrow> (Inl TypeError, w)
      | Some mutatorFn \<Rightarrow>
          (case mutateState env
                  (\<lambda>oldState isRootCall w1.
                     case exec_stmts fuel env args (fn_body mutatorFn)
                            (call_enter isRootCall oldState w1) of
                       (Inl e, w2) \<Rightarrow> (Inl e, w2)
                     | (Inr result, w2) \<Rightarrow>
                         call_leave env isRootCall mutatorName mutatorFn args result w2)
                  w of
             (Inl e, w') \<Rightarrow> (Inl e, w')
           | (Inr _, w') \<Rightarrow> (Inr Undefined, w')))"

text \<open>
  The wrapper once more, with the two pieces of code it calls that are not in
  \<open>Store.ts\<close> as arguments: the helper \<open>failIfNotUndefined\<close> of \<open>./utils\<close>, which
  is handed \<open>env\<close> and so may consult the flag, and the method, \<open>applyFn\<close> being
  \<open>mutatorFn.apply(thisObj, args)\<close>. The outcome says whether the wrapper threw.
\<close>

definition mutator_wrapper ::
  "(env \<Rightarrow> jsval \<Rightarrow> error + unit) \<Rightarrow> env \<Rightarrow> string \<Rightarrow> mutatorFn \<Rightarrow> jsval list
     \<Rightarrow> (store \<Rightarrow> (error + jsval) \<times> store) \<Rightarrow> store \<Rightarrow> (error + unit) \<times> store" where
  "mutator_wrapper failIfNotUndefined' env mutatorName mutatorFn args applyFn w =
     mutateState env
       (\<lambda>oldState isRootCall w1.
          case applyFn (call_enter isRootCall oldState w1) of
            (Inl e, w2) \<Rightarrow> (Inl e, w2)
          | (Inr result, w2) \<Rightarrow>
              (case failIfNotUndefined' env result of
                 Inl e \<Rightarrow> (Inl e, w2)
               | Inr _ \<Rightarrow>
                   (case failIfInstanceMembersExistExceptState env (thisObj w2) of
                      Inl e \<Rightarrow> (Inl e, w2)
                    | Inr _ \<Rightarrow>
                        (let w' = w2\<lparr>proxyObj :=
                                      AList.update ''state'' (get_thisObj w2 ''state'')
                                        (proxyObj w2)\<rparr>;
                             mutatorEvent =
                               \<lparr>ev_storeId =
                                  (if isRootCall then get_proxyObj w' ''storeId''
                                   else get_thisObj w' ''storeId''),
                                ev_action =
                                  createActionFromArguments mutatorName (fn_source mutatorFn) args,
                                ev_state = get_proxyObj w' ''state'',
                                ev_duration = None\<rparr>
                         in (Inr mutatorEvent, w')))))
       w"

text \<open>
  \<open>createMutatorsProxy\<close> and the constructor. The proxy starts without own
  properties; \<open>delete this.mutate.state\<close> removes a \<open>state\<close> property if there is
  one. The registration \<open>addStoreToGlobalState(this)\<close> acts on a registry outside the
  store object and is not part of this record.
\<close>

definition createMutatorsProxy :: "mutatorInstance \<Rightarrow> store \<Rightarrow> store" where
  "createMutatorsProxy mutatorsInstance w =
     w\<lparr>proxyObj := [], mutatorFns := methods mutatorsInstance\<rparr>"

definition Store_constructor ::
  "env \<Rightarrow> string \<Rightarrow> mutatorInstance \<Rightarrow> jsval \<Rightarrow> int \<Rightarrow> (error + unit) \<times> store" where
  "Store_constructor env sid mutatorInstance state t0 =
     (let w0 = \<lparr>storeId = sid, store_state = Undefined, mutatorCallStackCount = 0,
                mutatorEvents = [], proxyObj = [], thisObj = [], mutatorFns = [], now = t0\<rparr>;
          w1 = processMutator env
                 \<lparr>ev_storeId = Str (storeId w0), ev_action = [(''type'', Str ''@@INIT'')],
                  ev_state = state, ev_duration = None\<rparr> w0
      in case failIfInstanceMembersExistExceptState env (own_members mutatorInstance) of
           Inl e \<Rightarrow> (Inl e, w1)
         | Inr _ \<Rightarrow>
             (let w2 = createMutatorsProxy mutatorInstance w1
              in (Inr (), w2\<lparr>proxyObj := AList.delete ''state'' (proxyObj w2)\<rparr>)))"

text \<open>What a call below the root must leave as it found it.\<close>

definition unchanged :: "store \<Rightarrow> store \<Rightarrow> bool" where
  "unchanged w w' =
     (store_state w' = store_state w \<and> mutatorEvents w' = mutatorEvents w
      \<and> mutatorCallStackCount w' = mutatorCallStackCount w
      \<and> mutatorFns w' = mutatorFns w \<and> storeId w' = storeId w)"

subsection \<open>Scenarios of \<open>src/mutators.test.ts\<close>\<close>

definition test_env :: env where
  "test_env = \<lparr>devMode = True,
                mutatorHasInstanceMembers = ''mutatorHasInstanceMembers'',
                mutatorWrongReturnType = ''mutatorWrongReturnType''\<rparr>"

definition num_prop :: "string \<Rightarrow> jsval \<Rightarrow> int" where
  "num_prop k s = (case s of Obj props \<Rightarrow> (case map_of props k of Some (Num n) \<Rightarrow> n | _ \<Rightarrow> 0) | _ \<Rightarrow> 0)"

definition str_prop :: "string \<Rightarrow> jsval \<Rightarrow> string" where
  "str_prop k s = (case s of Obj props \<Rightarrow> (case map_of props k of Some (Str x) \<Rightarrow> x | _ \<Rightarrow> []) | _ \<Rightarrow> [])"

text \<open>
  "state changes are only persistent if the mutator did not throw an exception":
  \<open>mut1() { this.state.a = 1; if (this.state.a > 0) { throw new Error(""); } this.state.a = 2; }\<close>
  on the state \<open>{a: 0}\<close>.
\<close>

definition throwing_mut1 :: mutatorFn where
  "throwing_mut1 =
     \<lparr>fn_source = ''function () { this.state.a = 1; if (this.state.a > 0) { throw new Error(\"\"); } this.state.a = 2; }'',
      fn_body = [SetStateProp ''a'' (\<lambda>args s. Num 1),
                 ThrowIf (\<lambda>args s. num_prop ''a'' s > 0) '''',
                 SetStateProp ''a'' (\<lambda>args s. Num 2)]\<rparr>"

definition throwing_store :: store where
  "throwing_store =
     snd (Store_constructor test_env ''''
            \<lparr>own_members = [], methods = [(''mut1'', throwing_mut1)]\<rparr>
            (Obj [(''a'', Num 0)]) 0)"

subsection \<open>The call tree on one draft\<close>

text \<open>
  The specification's account of a call tree: there is one draft; every method of the
  tree, nested or not, reads it as the calls before left it and hands it on with its
  own writes. \<open>draft_call\<close> is the draft after the call \<open>this.m(...)\<close>,
  \<open>draft_stmts\<close> the draft after a body, for a tree that runs without a throw.
\<close>

fun draft_stmts ::
  "nat \<Rightarrow> (string \<times> mutatorFn) list \<Rightarrow> jsval list \<Rightarrow> stmt list \<Rightarrow> jsval \<Rightarrow> jsval"
and draft_call ::
  "nat \<Rightarrow> (string \<times> mutatorFn) list \<Rightarrow> string \<Rightarrow> jsval list \<Rightarrow> jsval \<Rightarrow> jsval"
where
  "draft_stmts fuel fns args [] d = d"
| "draft_stmts fuel fns args (SetStateProp k e # rest) d =
     (case d of
        Obj props \<Rightarrow> draft_stmts fuel fns args rest (Obj (AList.update k (e args d) props))
      | _ \<Rightarrow> d)"
| "draft_stmts fuel fns args (AssignState e # rest) d = draft_stmts fuel fns args rest (e args d)"
| "draft_stmts fuel fns args (SetMember k v # rest) d =
     draft_stmts fuel fns args rest (if k = ''state'' then v else d)"
| "draft_stmts fuel fns args (CallMutator m as # rest) d =
     draft_stmts fuel fns args rest (draft_call fuel fns m as d)"
| "draft_stmts fuel fns args (ThrowIf c msg # rest) d = draft_stmts fuel fns args rest d"
| "draft_stmts fuel fns args (Return v # rest) d = d"
| "draft_stmts fuel fns args (Wait n # rest) d = draft_stmts fuel fns args rest d"
| "draft_call 0 fns m as d = d"
| "draft_call (Suc fuel) fns m as d =
     (case map_of fns m of
        None \<Rightarrow> d
      | Some f \<Rightarrow> draft_stmts fuel fns as (fn_body f) d)"

text \<open>
  "nested methods are merged": \<open>mod1() { this.state.n1 += "1"; this.mod2(); this.mod3(); }\<close>,
  \<open>mod2() { this.state.n1 += "2"; }\<close>, \<open>mod3() { this.state.n1 += "3"; }\<close> on the
  state \<open>{n1: ""}\<close> of the store \<open>"TestStore"\<close>.
\<close>

definition append_n1 :: "string \<Rightarrow> stmt" where
  "append_n1 x = SetStateProp ''n1'' (\<lambda>args s. Str (str_prop ''n1'' s @ x))"

definition merged_methods :: "(string \<times> mutatorFn) list" where
  "merged_methods =
     [(''mod1'', \<lparr>fn_source = ''function () { this.state.n1 += \"1\"; this.mod2(); this.mod3(); }'',
                  fn_body = [append_n1 ''1'', CallMutator ''mod2'' [], CallMutator ''mod3'' []]\<rparr>),
      (''mod2'', \<lparr>fn_source = ''function () { this.state.n1 += \"2\"; }'',
                  fn_body = [append_n1 ''2'']\<rparr>),
      (''mod3'', \<lparr>fn_source = ''function () { this.state.n1 += \"3\"; }'',
                  fn_body = [append_n1 ''3'']\<rparr>)]"

definition merged_store :: store where
  "merged_store =
     snd (Store_constructor test_env ''TestStore''
            \<lparr>own_members = [], methods = merged_methods\<rparr>
            (Obj [(''n1'', Str '''')]) 0)"

text \<open>
  "mutators must not have instance members": an instance with the field \<open>abc = 1\<close>;
  "mutators must not create instance members": \<open>mut() { (this as any).abc = 1; }\<close>
  on the store \<open>"myStore"\<close> with the state \<open>{}\<close>.
\<close>

definition member_instance :: mutatorInstance where
  "member_instance = \<lparr>own_members = [(''abc'', Num 1)], methods = []\<rparr>"

definition member_mut :: mutatorFn where
  "member_mut = \<lparr>fn_source = ''function () { this.abc = 1; }'',
                  fn_body = [SetMember ''abc'' (Num 1)]\<rparr>"

definition member_store :: store where
  "member_store =
     snd (Store_constructor test_env ''myStore''
            \<lparr>own_members = [], methods = [(''mut'', member_mut)]\<rparr> (Obj []) 0)"

text \<open>
  A method that creates a member and then throws:
  \<open>mut() { (this as any).abc = 1; throw new Error("x"); }\<close>, on a store of the same
  name and state.
\<close>

definition member_throw_mut :: mutatorFn where
  "member_throw_mut = \<lparr>fn_source = ''function () { this.abc = 1; throw new Error(\"x\"); }'',
                        fn_body = [SetMember ''abc'' (Num 1), ThrowIf (\<lambda>args s. True) ''x'']\<rparr>"

definition member_throw_store :: store where
  "member_throw_store =
     snd (Store_constructor test_env ''myStore''
            \<lparr>own_members = [], methods = [(''mut'', member_throw_mut)]\<rparr> (Obj []) 0)"

text \<open>
  A method with a parameter: \<open>incrementBy(by) { this.state.a += by; }\<close> on the state
  \<open>{a: 1}\<close> of the store \<open>"counter"\<close>.
\<close>

definition incrementBy :: mutatorFn where
  "incrementBy =
     \<lparr>fn_source = ''function (by) { this.state.a += by; }'',
      fn_body = [SetStateProp ''a''
                   (\<lambda>args s. Num (num_prop ''a'' s + (case args of Num n # _ \<Rightarrow> n | _ \<Rightarrow> 0)))]\<rparr>"

definition counter_store :: store where
  "counter_store =
     snd (Store_constructor test_env ''counter''
            \<lparr>own_members = [], methods = [(''incrementBy'', incrementBy)]\<rparr>
            (Obj [(''a'', Num 1)]) 0)"

section \<open>The store with dispatchers (\<open>Store\<close>, \<open>createDispatchers\<close>, \<open>select\<close>)\<close>

text \<open>
  The older store wraps the methods of the mutators object in place
  (\<open>createDispatchers\<close>): \<open>this\<close> of a method is the mutators object itself, its
  \<open>state\<close> is an accessor property, and the wrapper returns a promise.
\<close>

record dispatcher_env = env +
  illegalAccessToThisState :: string

record 's Event =
  event_action :: jsobj
  event_state :: 's
  event_boundMutator :: "(string \<times> jsval list) option"  \<comment> \<open>the call that \<open>boundMutator\<close> repeats\<close>

text \<open>
  The \<open>state\<close> property of the mutators object: not defined yet, the accessor made by
  \<open>assignStateValue\<close>, or the one made by \<open>assignStateErrorGetter\<close>.
\<close>

datatype state_slot = Unassigned | StateValue jsval | StateErrorGetter


record dstore =
  dispatch_state :: jsval
  runningMutatorStack :: "string list"
  events :: "jsval Event list"
  mutators_state :: state_slot
  mutators_members :: jsobj
  dispatchers :: "(string \<times> mutatorFn) list"
  before_hooks :: "string list"

definition props_of :: "jsval \<Rightarrow> jsobj" where
  "props_of v =
     (case v of
        Obj props \<Rightarrow> props
      | Arr xs \<Rightarrow> zip (map show_nat [0..<length xs]) xs
      | _ \<Rightarrow> [])"

text \<open>\<open>_.assignIn(target, source)\<close>: every enumerable property of the source is assigned.\<close>

definition assignIn :: "jsobj \<Rightarrow> jsval \<Rightarrow> jsobj" where
  "assignIn target source = fold (\<lambda>(k, v) t. AList.update k v t) (props_of source) target"

text \<open>
  \<open>createProxy\<close> as this file defines it: the members of the target copied onto a new
  object whose prototype is the target. \<open>Object.setPrototypeOf\<close> refuses a prototype
  that is neither an object nor \<open>null\<close>.
\<close>

definition dispatcher_createProxy :: "jsval \<Rightarrow> error + jsval" where
  "dispatcher_createProxy target =
     (case target of
        Undefined \<Rightarrow> Inl TypeError
      | Bool b \<Rightarrow> Inl TypeError
      | Num n \<Rightarrow> Inl TypeError
      | Str s \<Rightarrow> Inl TypeError
      | _ \<Rightarrow> Inr (Obj (assignIn [] target)))"








text \<open>
  The start of a dispatcher: the before hook, and for a root mutator the draft put
  behind \<open>mutators.state\<close>.
\<close>

definition dispatch_enter :: "dispatcher_env \<Rightarrow> string \<Rightarrow> dstore \<Rightarrow> error + dstore" where
  "dispatch_enter env mutName w =
     (let w1 = w\<lparr>before_hooks := before_hooks w @ [mutName]\<rparr>
      in if runningMutatorStack w1 = []
         then (case dispatcher_createProxy (dispatch_state w1) of
                 Inl e \<Rightarrow> Inl e
               | Inr stateProxy \<Rightarrow> Inr (w1\<lparr>mutators_state := StateValue stateProxy\<rparr>))
         else Inr w1)"



text \<open>What a dispatcher below the root leaves as it found it.\<close>

definition running :: "dstore \<Rightarrow> dstore \<Rightarrow> bool" where
  "running w w' =
     (runningMutatorStack w' = runningMutatorStack w \<and> events w' = events w
      \<and> dispatch_state w' = dispatch_state w \<and> dispatchers w' = dispatchers w
      \<and> (mutators_state w \<noteq> StateErrorGetter \<longrightarrow> mutators_state w' \<noteq> StateErrorGetter))"


subsection \<open>A method that returns a value, in production mode\<close>

definition production_env :: env where
  "production_env = test_env\<lparr>devMode := False\<rparr>"


definition returning_mut :: mutatorFn where
  "returning_mut = \<lparr>fn_source = ''function () { return 1; }'', fn_body = [Return (Num 1)]\<rparr>"

definition returning_store :: store where
  "returning_store =
     snd (Store_constructor production_env ''s''
            \<lparr>own_members = [], methods = [(''ret'', returning_mut)]\<rparr> (Obj []) 0)"


subsection \<open>The change stream: \<open>select\<close> and \<open>selectNonNil\<close>\<close>

text \<open>
  What a selector returns is compared by reference, so the values of a stream carry
  the identity of every object: \<open>ObjRef i props\<close> is the object number \<open>i\<close> with its
  properties, \<open>ArrRef i xs\<close> the array number \<open>i\<close> with its elements. A value is a
  snapshot: an object is not changed in place once it has been delivered.
\<close>

datatype jsref =
    RUndefined
  | RNull
  | RBool bool
  | RNum int
  | RStr string
  | ObjRef nat "(string \<times> jsref) list"
  | ArrRef nat "jsref list"

text \<open>\<open>a === b\<close>: primitives by value, objects and arrays by identity.\<close>

fun strictEquals :: "jsref \<Rightarrow> jsref \<Rightarrow> bool" where
  "strictEquals (ObjRef i _) (ObjRef j _) = (i = j)"
| "strictEquals (ArrRef i _) (ArrRef j _) = (i = j)"
| "strictEquals (ObjRef i _) _ = False"
| "strictEquals _ (ObjRef j _) = False"
| "strictEquals (ArrRef i _) _ = False"
| "strictEquals _ (ArrRef j _) = False"
| "strictEquals a b = (a = b)"

definition isArray :: "jsref \<Rightarrow> bool" where
  "isArray v = (case v of ArrRef i xs \<Rightarrow> True | _ \<Rightarrow> False)"

definition isNil :: "jsref \<Rightarrow> bool" where
  "isNil v = (v = RUndefined \<or> v = RNull)"

text \<open>
  Modelled from the spec: \<open>isShallowEquals\<close> of \<open>./utils\<close> is not among the sources;
  it is the "shallow element-wise comparison" of two arrays: the same length, and
  \<open>===\<close> at every index.
\<close>

definition isShallowEquals :: "jsref \<Rightarrow> jsref \<Rightarrow> bool" where
  "isShallowEquals a b =
     (case (a, b) of
        (ArrRef i xs, ArrRef j ys) \<Rightarrow> list_all2 strictEquals xs ys
      | _ \<Rightarrow> False)"

text \<open>The comparator that \<open>select\<close> gives to \<open>distinctUntilChanged\<close>.\<close>

definition select_compare :: "jsref \<Rightarrow> jsref \<Rightarrow> bool" where
  "select_compare old v =
     (if isArray old \<and> isArray v then isShallowEquals old v else strictEquals old v)"

text \<open>
  The operators of the stream library, on the list of the values a subscriber has
  received so far. \<open>distinctUntilChanged\<close> passes the first value, and then every value
  that its comparator does not equate with the last value passed.
\<close>

fun distinct_after :: "('a \<Rightarrow> 'a \<Rightarrow> bool) \<Rightarrow> 'a \<Rightarrow> 'a list \<Rightarrow> 'a list" where
  "distinct_after compare key [] = []"
| "distinct_after compare key (x # xs) =
     (if compare key x then distinct_after compare key xs
      else x # distinct_after compare x xs)"

definition distinctUntilChanged :: "('a \<Rightarrow> 'a \<Rightarrow> bool) \<Rightarrow> 'a list \<Rightarrow> 'a list" where
  "distinctUntilChanged compare xs =
     (case xs of
        [] \<Rightarrow> []
      | x # rest \<Rightarrow> x # distinct_after compare x rest)"

definition select :: "(jsref \<Rightarrow> jsref) option \<Rightarrow> jsref Event list \<Rightarrow> jsref list" where
  "select selector evs =
     distinctUntilChanged select_compare
       (map (\<lambda>event. case selector of
                        Some sel \<Rightarrow> sel (event_state event)
                      | None \<Rightarrow> event_state event) evs)"

definition selectNonNil :: "(jsref \<Rightarrow> jsref) \<Rightarrow> jsref Event list \<Rightarrow> jsref list" where
  "selectNonNil selector evs =
     map (\<lambda>val. val) (filter (\<lambda>val. \<not> isNil val) (select (Some selector) evs))"

text \<open>The value \<open>select\<close> maps an event to.\<close>

definition selected :: "(jsref \<Rightarrow> jsref) option \<Rightarrow> jsref Event \<Rightarrow> jsref" where
  "selected selector event =
     (case selector of Some sel \<Rightarrow> sel (event_state event) | None \<Rightarrow> event_state event)"

text \<open>
  A scenario: three commits that each build a new state object with a new \<open>items\<close>
  array holding the same element, and the selector \<open>s => s.items\<close>.
\<close>

definition select_items :: "jsref \<Rightarrow> jsref" where
  "select_items s =
     (case s of
        ObjRef i props \<Rightarrow> (case map_of props ''items'' of Some v \<Rightarrow> v | None \<Rightarrow> RUndefined)
      | _ \<Rightarrow> RUndefined)"

definition items_event :: "nat \<Rightarrow> jsref Event" where
  "items_event n =
     \<lparr>event_action = [(''type'', Str ''touch'')],
      event_state = ObjRef (2 * n) [(''items'', ArrRef (2 * n + 1) [RNum 1]), (''n'', RNum (int n))],
      event_boundMutator = None\<rparr>"

section \<open>The facade of \<open>Facade.ts\<close>\<close>

subsection \<open>Action names and the reducer of a facade\<close>

text \<open>
  An action as the reducers read it. \<open>action_type\<close> is a value, since the reducer tests
  \<open>typeof action.type\<close>; \<open>action_initialState\<close> is the property \<open>initialState\<close> that the seeding action carries.
\<close>

record action =
  action_type :: jsval
  payload :: "jsref list"
  action_initialState :: "jsref option"

definition createActionName :: "string \<Rightarrow> string \<Rightarrow> string" where
  "createActionName facadeId mutatorMethodName = ''['' @ facadeId @ ''] '' @ mutatorMethodName"

definition isActionForThisFacade :: "string \<Rightarrow> action \<Rightarrow> bool" where
  "isActionForThisFacade facadeId action =
     (case action_type action of
        Str t \<Rightarrow> indexOf t (''['' @ facadeId @ ''] '') = 0
      | _ \<Rightarrow> False)"

text \<open>
  The mount point of a facade, as far as its reducer uses it: the projection of the
  root state to the slice and the replacement of the slice in the root state. The
  class is not among the sources; the two functions are parameters.
\<close>

record 'r mountPoint =
  extractState :: "'r \<Rightarrow> jsref"
  mp_setState :: "'r \<Rightarrow> jsref \<Rightarrow> 'r"

text \<open>
  Modelled from the spec: \<open>createProxy\<close> of \<open>./utils\<close> is not among the sources; the
  draft reads as the state it was made from.
\<close>

definition draft_of :: "jsref \<Rightarrow> jsref" where
  "draft_of target = target"

text \<open>
  The reducer that \<open>Facade.createReducerFromCommandsInvoker\<close> returns.
  \<open>mutatorReducer\<close> is the reducer of the commands, made by a function of
  \<open>./commands\<close> that is not among the sources; it is a parameter.
\<close>

definition facade_reducer ::
  "string \<Rightarrow> bool \<Rightarrow> (jsref \<Rightarrow> action \<Rightarrow> jsref) \<Rightarrow> 'r mountPoint \<Rightarrow> 'r \<Rightarrow> action \<Rightarrow> 'r" where
  "facade_reducer facadeId destroyedState mutatorReducer mountPoint state action =
     (let preLocalState = draft_of (extractState mountPoint state)
      in if destroyedState \<or> \<not> isActionForThisFacade facadeId action then state
         else (let postLocalState = mutatorReducer preLocalState action
               in mp_setState mountPoint state postLocalState))"

text \<open>
  A root state made of named slices, and the mount point of the slice \<open>name\<close> in it.
\<close>

type_synonym root = "(string \<times> jsref) list"

definition slice :: "string \<Rightarrow> root mountPoint" where
  "slice name =
     \<lparr>extractState = (\<lambda>r. case map_of r name of Some s \<Rightarrow> s | None \<Rightarrow> RUndefined),
      mp_setState = (\<lambda>r s. AList.update name s r)\<rparr>"

subsection \<open>The life of a facade\<close>

text \<open>
  A subject is the list of the values it has delivered and whether it has completed;
  \<open>next\<close> after \<open>complete\<close> delivers nothing.
\<close>

record 'a subject =
  emitted :: "'a list"
  completed :: bool

definition subject_next :: "'a \<Rightarrow> 'a subject \<Rightarrow> 'a subject" where
  "subject_next v s = (if completed s then s else s\<lparr>emitted := emitted s @ [v]\<rparr>)"

definition subject_complete :: "'a subject \<Rightarrow> 'a subject" where
  "subject_complete s = s\<lparr>completed := True\<rparr>"

text \<open>
  The initial state given to the constructor: a value (\<open>undefined\<close> for none), a
  function without arguments (\<open>Producer v\<close> returns \<open>v\<close>), or a promise, in the state it
  has when the constructor runs.
\<close>

datatype promise = Pending | Resolved jsref | Rejected

datatype initialStateValue = Literal jsref | Producer jsref | PromiseOf promise

text \<open>
  The callbacks the facade leaves on the microtask queue: the delivery of a state to
  the subject, the continuation of the initial-state promise (\<open>then\<close>, or the passing
  on of a rejection), and its \<open>finally\<close>.
\<close>

datatype task =
    DeliverState jsref
  | InitialStateResolved jsref
  | InitialStateRejected
  | InitialStateFinally

text \<open>
  The facade and what it acts on. Its own fields come first. Of the mount point:
  \<open>mount_state\<close> is what \<open>mountPoint.getState()\<close> returns, \<open>initial_reducer\<close> whether
  the second reducer has been added, \<open>mount_subscribed\<close> whether the subscription is
  active, \<open>slice_path_free\<close> whether the path has been freed; \<open>dispatched\<close> lists the
  actions given to \<open>mountPoint.dispatch\<close>. \<open>registry\<close> is the process-wide registry of
  facade ids, \<open>microtasks\<close> the queue, \<open>awaiting_initial\<close> whether a pending
  initial-state promise has the continuation attached, \<open>next_ref\<close> the number of the
  next object to be created, \<open>producer_calls\<close> how often the producer was invoked.
  The subject behind \<open>observeDestroyed()\<close> is never completed: it is the list of its
  values.
\<close>

record facade =
  facadeId :: string
  destroyedState :: bool
  bufferedStateChanges :: int
  facade_state :: jsref
  reduxStoreStateSubject :: "jsref subject"
  destroyedSubject :: "bool list"
  mutatorReducer :: "jsref \<Rightarrow> action \<Rightarrow> jsref"
  mount_state :: jsref
  initial_reducer :: bool
  mount_subscribed :: bool
  slice_path_free :: bool
  dispatched :: "action list"
  registry :: "string list"
  microtasks :: "task list"
  awaiting_initial :: bool
  next_ref :: nat
  producer_calls :: nat

definition hasBufferedStateChanges :: "facade \<Rightarrow> bool" where
  "hasBufferedStateChanges w = (bufferedStateChanges w > 0)"

text \<open>\<open>Facade.setState\<close>; deep-freezing leaves the value as it is.\<close>

definition facade_setState :: "jsref \<Rightarrow> facade \<Rightarrow> facade" where
  "facade_setState state w = w\<lparr>facade_state := state\<rparr>"

text \<open>\<open>Object.assign({}, source)\<close>: a new object with the own properties of the source.\<close>

definition own_props :: "jsref \<Rightarrow> (string \<times> jsref) list" where
  "own_props source =
     (case source of
        ObjRef i props \<Rightarrow> props
      | ArrRef i xs \<Rightarrow> zip (map show_nat [0..<length xs]) xs
      | RStr s \<Rightarrow> zip (map show_nat [0..<length s]) (map (\<lambda>c. RStr [c]) s)
      | _ \<Rightarrow> [])"

text \<open>
  The callback given to \<open>mountPoint.subscribe\<close>: a copy of the current slice becomes
  the state, and its delivery to the subject is left to a microtask.
\<close>

definition on_mount_change :: "facade \<Rightarrow> facade" where
  "on_mount_change w =
     (let currentState = ObjRef (next_ref w) (own_props (mount_state w));
          w1 = w\<lparr>next_ref := next_ref w + 1\<rparr>;
          w2 = w1\<lparr>bufferedStateChanges := bufferedStateChanges w1 + 1\<rparr>;
          w3 = facade_setState currentState w2
      in w3\<lparr>microtasks := microtasks w3 @ [DeliverState currentState]\<rparr>)"

definition initialFacadeStateAction :: "string \<Rightarrow> string" where
  "initialFacadeStateAction fid = createActionName fid ''@@SET_STATE''"

text \<open>The second reducer of the constructor, on the slice.\<close>

definition initial_state_reducer :: "action \<Rightarrow> facade \<Rightarrow> facade" where
  "initial_state_reducer action w =
     (if action_type action = Str (initialFacadeStateAction (facadeId w))
      then (let stateValue = (case action_initialState action of Some v \<Rightarrow> v | None \<Rightarrow> RUndefined);
                w1 = facade_setState stateValue w;
                w2 = w1\<lparr>reduxStoreStateSubject :=
                          subject_next (facade_state w1) (reduxStoreStateSubject w1)\<rparr>
            in w2\<lparr>mount_state := stateValue\<rparr>)
      else w)"

text \<open>
  Modelled from the spec: \<open>mountPoint.dispatch\<close> (the class is not among the sources)
  "triggers the collaborator's registered reducer chain and subscriber notifications
  before returning". The chain holds the reducers of this facade, in the order they
  were added; each works on the slice.
\<close>

definition mount_dispatch :: "action \<Rightarrow> facade \<Rightarrow> facade" where
  "mount_dispatch action w =
     (let w1 = w\<lparr>dispatched := dispatched w @ [action]\<rparr>;
          w2 = w1\<lparr>mount_state :=
                    facade_reducer (facadeId w1) (destroyedState w1) (mutatorReducer w1)
                      \<lparr>extractState = (\<lambda>s. s), mp_setState = (\<lambda>s s'. s')\<rparr>
                      (mount_state w1) action\<rparr>;
          w3 = (if initial_reducer w2 then initial_state_reducer action w2 else w2)
      in if mount_subscribed w3 then on_mount_change w3 else w3)"

definition seeding_action :: "string \<Rightarrow> jsref \<Rightarrow> action" where
  "seeding_action fid v =
     \<lparr>action_type = Str (initialFacadeStateAction fid), payload = [], action_initialState = Some v\<rparr>"

text \<open>
  The constructor, from the registration on. \<open>mount0\<close> is the state of the slice when
  it runs, \<open>registry0\<close> the registry, \<open>ref0\<close> the number of the next object.
\<close>

definition Facade_constructor ::
  "string \<Rightarrow> (jsref \<Rightarrow> action \<Rightarrow> jsref) \<Rightarrow> initialStateValue \<Rightarrow> jsref \<Rightarrow> string list \<Rightarrow> nat
     \<Rightarrow> facade" where
  "Facade_constructor fid mr initialState mount0 registry0 ref0 =
     (let w0 = \<lparr>facadeId = fid, destroyedState = False, bufferedStateChanges = 0,
                facade_state = RUndefined,
                reduxStoreStateSubject = \<lparr>emitted = [], completed = False\<rparr>,
                destroyedSubject = [], mutatorReducer = mr, mount_state = mount0,
                initial_reducer = False, mount_subscribed = False, slice_path_free = False,
                dispatched = [], registry = registry0 @ [fid], microtasks = [],
                awaiting_initial = False, next_ref = ref0, producer_calls = 0\<rparr>;
          w1 = facade_setState (mount_state w0) w0;
          w2 = w1\<lparr>reduxStoreStateSubject :=
                    subject_next (facade_state w1) (reduxStoreStateSubject w1)\<rparr>;
          w3 = (if initialState \<noteq> Literal RUndefined
                then (let w' = w2\<lparr>initial_reducer := True\<rparr>
                      in case initialState of
                           PromiseOf p \<Rightarrow>
                             (let w'' = w'\<lparr>bufferedStateChanges := bufferedStateChanges w' + 1\<rparr>
                              in case p of
                                   Pending \<Rightarrow> w''\<lparr>awaiting_initial := True\<rparr>
                                 | Resolved v \<Rightarrow>
                                     w''\<lparr>microtasks := microtasks w'' @ [InitialStateResolved v]\<rparr>
                                 | Rejected \<Rightarrow>
                                     w''\<lparr>microtasks := microtasks w'' @ [InitialStateRejected]\<rparr>)
                         | Producer v \<Rightarrow>
                             mount_dispatch (seeding_action fid v)
                               (w'\<lparr>producer_calls := producer_calls w' + 1\<rparr>)
                         | Literal v \<Rightarrow> mount_dispatch (seeding_action fid v) w')
                else w2)
      in w3\<lparr>mount_subscribed := True\<rparr>)"

text \<open>The pending initial-state promise settles: its continuation is queued.\<close>

definition settle_initial :: "promise \<Rightarrow> facade \<Rightarrow> facade" where
  "settle_initial p w =
     (if awaiting_initial w
      then (case p of
              Pending \<Rightarrow> w
            | Resolved v \<Rightarrow>
                w\<lparr>awaiting_initial := False,
                  microtasks := microtasks w @ [InitialStateResolved v]\<rparr>
            | Rejected \<Rightarrow>
                w\<lparr>awaiting_initial := False,
                  microtasks := microtasks w @ [InitialStateRejected]\<rparr>)
      else w)"

text \<open>One microtask: the first callback of the queue runs.\<close>

fun run_task :: "task \<Rightarrow> facade \<Rightarrow> facade" where
  "run_task (DeliverState currentState) w =
     (let w1 = w\<lparr>bufferedStateChanges := bufferedStateChanges w - 1\<rparr>
      in w1\<lparr>reduxStoreStateSubject := subject_next currentState (reduxStoreStateSubject w1)\<rparr>)"
| "run_task (InitialStateResolved v) w =
     (let w1 = mount_dispatch (seeding_action (facadeId w) v) w
      in w1\<lparr>microtasks := microtasks w1 @ [InitialStateFinally]\<rparr>)"
| "run_task InitialStateRejected w = w\<lparr>microtasks := microtasks w @ [InitialStateFinally]\<rparr>"
| "run_task InitialStateFinally w = w\<lparr>bufferedStateChanges := bufferedStateChanges w - 1\<rparr>"

definition run_microtask :: "facade \<Rightarrow> facade" where
  "run_microtask w =
     (case microtasks w of
        [] \<Rightarrow> w
      | t # ts \<Rightarrow> run_task t (w\<lparr>microtasks := ts\<rparr>))"

text \<open>\<open>destroy()\<close>.\<close>

definition destroy :: "facade \<Rightarrow> facade" where
  "destroy w =
     (let w1 = w\<lparr>mount_subscribed := False\<rparr>;
          w2 = w1\<lparr>slice_path_free := True\<rparr>;
          w3 = w2\<lparr>destroyedState := True\<rparr>;
          w4 = w3\<lparr>reduxStoreStateSubject := subject_complete (reduxStoreStateSubject w3)\<rparr>;
          w5 = w4\<lparr>destroyedSubject := destroyedSubject w4 @ [True]\<rparr>
      in w5\<lparr>registry := removeAll (facadeId w5) (registry w5)\<rparr>)"

definition isDestroyed :: "facade \<Rightarrow> bool" where
  "isDestroyed w = destroyedState w"

text \<open>What a subscriber of \<open>observeDestroyed()\<close> that watches from the start receives.\<close>

definition observeDestroyed :: "facade \<Rightarrow> bool list" where
  "observeDestroyed w = destroyedSubject w"

text \<open>A call of a command through the proxy \<open>this.commands\<close>.\<close>

definition command :: "string \<Rightarrow> jsref list \<Rightarrow> facade \<Rightarrow> facade" where
  "command mutatorMethodName args w =
     mount_dispatch
       \<lparr>action_type = Str (createActionName (facadeId w) mutatorMethodName),
        payload = args, action_initialState = None\<rparr> w"


subsection \<open>Scenarios\<close>

text \<open>
  Two facades on one root state: \<open>"a"\<close> and \<open>"b"\<close>, each with the command \<open>inc\<close> that
  adds one to a numeric state.
\<close>

definition inc_reducer :: "string \<Rightarrow> jsref \<Rightarrow> action \<Rightarrow> jsref" where
  "inc_reducer fid s a =
     (if action_type a = Str (createActionName fid ''inc'')
      then (case s of RNum n \<Rightarrow> RNum (n + 1) | _ \<Rightarrow> s)
      else s)"

definition two_slices :: root where
  "two_slices = [(''a'', RNum 0), (''b'', RNum 0)]"

text \<open>
  Two facades whose ids are \<open>"x"\<close> and \<open>"x] y"\<close>. The first has a command named
  \<open>"y] m"\<close> that adds one to its state; the second has a command named \<open>"m"\<close>.
\<close>

definition bracket_reducer :: "jsref \<Rightarrow> action \<Rightarrow> jsref" where
  "bracket_reducer s a =
     (if action_type a = Str (createActionName ''x'' ''y] m'')
      then (case s of RNum n \<Rightarrow> RNum (n + 1) | _ \<Rightarrow> s)
      else s)"

definition bracket_slices :: root where
  "bracket_slices = [(''x'', RNum 0), (''x] y'', RNum 0)]"

text \<open>
  What can happen to a facade after its construction: the root state changes (the
  slice is then \<open>v\<close>, changed or not) and the mount point notifies its subscribers; a
  microtask runs; a command is called; the initial-state promise settles;
  \<open>destroy()\<close> is called.
\<close>

datatype event =
    RootChanged jsref
  | RunMicrotask
  | Command string "jsref list"
  | PromiseSettles promise
  | Destroy

fun step :: "event \<Rightarrow> facade \<Rightarrow> facade" where
  "step (RootChanged v) w =
     (let w1 = w\<lparr>mount_state := v\<rparr>
      in if mount_subscribed w1 then on_mount_change w1 else w1)"
| "step RunMicrotask w = run_microtask w"
| "step (Command m args) w = command m args w"
| "step (PromiseSettles p) w = settle_initial p w"
| "step Destroy w = destroy w"

definition run :: "event list \<Rightarrow> facade \<Rightarrow> facade" where
  "run evs w = fold step evs w"

text \<open>
  A facade \<open>"counter"\<close> with the state \<open>{a: 5}\<close> given as a value, and one that is
  given \<open>Promise.resolve({a: 5})\<close>.
\<close>

definition a5 :: jsref where
  "a5 = ObjRef 0 [(''a'', RNum 5)]"

definition counter_facade :: facade where
  "counter_facade =
     Facade_constructor ''counter'' (inc_reducer ''counter'') (Literal a5) RUndefined [] 1"

definition promised_facade :: facade where
  "promised_facade =
     Facade_constructor ''counter'' (inc_reducer ''counter'') (PromiseOf (Resolved a5))
       RUndefined [] 1"

text \<open>
  The continuation of the initial-state promise is outstanding while its promise is
  pending or one of its callbacks is on the queue.
\<close>

definition is_initial_task :: "task \<Rightarrow> bool" where
  "is_initial_task t = (case t of DeliverState s \<Rightarrow> False | _ \<Rightarrow> True)"

definition continuation_outstanding :: "facade \<Rightarrow> bool" where
  "continuation_outstanding w = (awaiting_initial w \<or> list_ex is_initial_task (microtasks w))"

text \<open>The counter of buffered changes counts the callbacks that are still to run.\<close>

definition balanced :: "facade \<Rightarrow> bool" where
  "balanced w =
     (bufferedStateChanges w
        = int (length (microtasks w)) + (if awaiting_initial w then 1 else 0))"

section \<open>Properties of the store of \<open>src/Store.ts\<close>\<close>

subsection \<open>What a call below the root leaves alone\<close>

lemma unchanged_refl: "unchanged w w"
  by (simp add: unchanged_def)

lemma unchanged_trans: "unchanged a b \<Longrightarrow> unchanged b c \<Longrightarrow> unchanged a c"
  by (simp add: unchanged_def)

lemma call_leave_unchanged:
  "call_leave env isRoot m f as res w = (r, w') \<Longrightarrow> unchanged w w'"
  by (auto simp: call_leave_def unchanged_def Let_def split: sum.splits)

lemma call_enter_unchanged: "unchanged w (call_enter isRoot s w)"
  by (auto simp: call_enter_def unchanged_def)

lemma mutateState_nested:
  assumes "0 < mutatorCallStackCount w"
    and "mutateState env fn w = (r, w')"
    and "\<And>s r1 w1.
           fn s False (w\<lparr>mutatorCallStackCount := mutatorCallStackCount w + 1\<rparr>) = (r1, w1)
           \<Longrightarrow> unchanged (w\<lparr>mutatorCallStackCount := mutatorCallStackCount w + 1\<rparr>) w1"
  shows "unchanged w w'"
proof -
  let ?w1 = "w\<lparr>mutatorCallStackCount := mutatorCallStackCount w + 1\<rparr>"
  obtain r1 w1 where f: "fn (createProxy (store_state ?w1)) False ?w1 = (r1, w1)"
    by (cases "fn (createProxy (store_state ?w1)) False ?w1") auto
  from assms(3)[OF f] have u: "unchanged ?w1 w1" .
  from assms(1,2) f u show ?thesis
    by (auto simp: mutateState_def Let_def unchanged_def split: sum.splits)
qed

lemma nested_frame:
  "0 < mutatorCallStackCount w \<Longrightarrow> exec_stmts fuel env args b w = (r, w') \<Longrightarrow> unchanged w w'"
  "0 < mutatorCallStackCount w \<Longrightarrow> invoke fuel env m as w = (r, w') \<Longrightarrow> unchanged w w'"
proof (induction fuel env args b w and fuel env m as w arbitrary: r w' and r w'
       rule: exec_stmts_invoke.induct)
  case (1 fuel env args w)
  then show ?case by (simp add: unchanged_def)
next
  case (2 fuel env args k e rest w)
  show ?case
  proof (cases "get_thisObj w ''state''")
    case (Obj props)
    let ?s = "Obj (AList.update k (e args (Obj props)) props)"
    let ?w = "if ''state'' \<in> set (map fst (thisObj w))
                 then w\<lparr>thisObj := AList.update ''state'' ?s (thisObj w)\<rparr>
                 else w\<lparr>proxyObj := AList.update ''state'' ?s (proxyObj w)\<rparr>"
    have e: "exec_stmts fuel env args rest ?w = (r, w')"
      using "2.prems"(2) Obj by (simp add: Let_def)
    have c: "0 < mutatorCallStackCount ?w" using "2.prems"(1) by simp
    have "unchanged ?w w'" using "2.IH"[OF Obj refl c e] .
    then show ?thesis by (auto simp: unchanged_def split: if_splits)
  qed (use "2.prems" in \<open>auto simp: unchanged_def\<close>)
next
  case (3 fuel env args e rest w)
  from "3.IH"[of r w'] "3.prems" show ?case by (auto simp: unchanged_def)
next
  case (4 fuel env args k v rest w)
  from "4.IH"[of r w'] "4.prems" show ?case by (auto simp: unchanged_def)
next
  case (5 fuel env args m as rest w)
  obtain r1 w1 where i: "invoke fuel env m as w = (r1, w1)"
    by (cases "invoke fuel env m as w") auto
  have u1: "unchanged w w1" using "5.IH"(1)[OF "5.prems"(1) i] .
  show ?case
  proof (cases r1)
    case (Inl e)
    with i "5.prems"(2) have "w' = w1" by simp
    with u1 show ?thesis by simp
  next
    case (Inr v)
    with i "5.prems"(2) have e: "exec_stmts fuel env args rest w1 = (r, w')" by simp
    have c: "0 < mutatorCallStackCount w1" using u1 "5.prems"(1) by (simp add: unchanged_def)
    have "unchanged w1 w'" using "5.IH"(2)[OF i[symmetric] Inr c e] .
    with u1 show ?thesis by (rule unchanged_trans)
  qed
next
  case (6 fuel env args c msg rest w)
  then show ?case by (auto simp: unchanged_def split: if_splits)
next
  case (7 fuel env args v rest w)
  then show ?case by (auto simp: unchanged_def)
next
  case (8 fuel env args n rest w)
  from "8.IH"[of r w'] "8.prems" show ?case by (auto simp: unchanged_def)
next
  case (9 env mutatorName args w)
  then show ?case by (auto simp: unchanged_def)
next
  case (10 fuel env mutatorName args w)
  show ?case
  proof (cases "map_of (mutatorFns w) mutatorName")
    case None
    with "10.prems" show ?thesis by (auto simp: unchanged_def)
  next
    case (Some f)
    let ?fn = "\<lambda>oldState isRootCall w1.
                     case exec_stmts fuel env args (fn_body f)
                            (call_enter isRootCall oldState w1) of
                       (Inl e, w2) \<Rightarrow> (Inl e, w2)
                     | (Inr result, w2) \<Rightarrow>
                         call_leave env isRootCall mutatorName f args result w2"
    obtain r0 w0 where m: "mutateState env ?fn w = (r0, w0)"
      by (cases "mutateState env ?fn w") auto
    have w': "w' = w0" using "10.prems"(2) Some m by (auto split: sum.splits)
    have "unchanged w w0"
    proof (rule mutateState_nested[OF "10.prems"(1) m])
      fix s r1 w1
      let ?w1 = "w\<lparr>mutatorCallStackCount := mutatorCallStackCount w + 1\<rparr>"
      assume a: "?fn s False ?w1 = (r1, w1)"
      obtain r2 w2 where
        e: "exec_stmts fuel env args (fn_body f) (call_enter False s ?w1) = (r2, w2)"
        by (cases "exec_stmts fuel env args (fn_body f) (call_enter False s ?w1)") auto
      have c: "0 < mutatorCallStackCount (call_enter False s ?w1)"
        by (simp add: call_enter_def)
      have u2: "unchanged (call_enter False s ?w1) w2"
        using "10.IH"[OF Some c e] .
      have u3: "unchanged w2 w1" using a e
        by (auto split: sum.splits simp: unchanged_refl dest: call_leave_unchanged)
      have "unchanged ?w1 (call_enter False s ?w1)" by (rule call_enter_unchanged)
      from this u2 u3 show "unchanged ?w1 w1" by (blast intro: unchanged_trans)
    qed
    with w' show ?thesis by simp
  qed
qed

subsection \<open>A call at the root\<close>

lemma invoke_root_cases:
  assumes root: "mutatorCallStackCount w = 0"
    and f: "map_of (mutatorFns w) m = Some f"
    and e: "exec_stmts fuel env args (fn_body f)
              (call_enter True (createProxy (store_state w)) (w\<lparr>mutatorCallStackCount := 1\<rparr>))
            = (r2, w2)"
  shows "invoke (Suc fuel) env m args w =
     (case r2 of
        Inl e \<Rightarrow> (Inl e, w2\<lparr>mutatorCallStackCount := mutatorCallStackCount w2 - 1\<rparr>)
      | Inr result \<Rightarrow>
          (case call_leave env True m f args result w2 of
             (Inl e, w3) \<Rightarrow> (Inl e, w3\<lparr>mutatorCallStackCount := mutatorCallStackCount w3 - 1\<rparr>)
           | (Inr ev, w3) \<Rightarrow>
               (Inr Undefined,
                (processMutator env
                   (if devMode env then ev\<lparr>ev_duration := Some (now w3 - now w)\<rparr> else ev) w3)
                \<lparr>mutatorCallStackCount := mutatorCallStackCount w3 - 1\<rparr>)))"
  using root f e
  by (simp add: mutateState_def Let_def processMutator_def setState_def
           split: sum.splits prod.splits)

lemma root_body_frame:
  assumes "exec_stmts fuel env args b
             (call_enter True d (w\<lparr>mutatorCallStackCount := 1\<rparr>)) = (r2, w2)"
  shows "store_state w2 = store_state w \<and> mutatorEvents w2 = mutatorEvents w
         \<and> mutatorCallStackCount w2 = 1 \<and> mutatorFns w2 = mutatorFns w"
proof -
  let ?w0 = "call_enter True d (w\<lparr>mutatorCallStackCount := 1\<rparr>)"
  have c: "0 < mutatorCallStackCount ?w0" by (simp add: call_enter_def)
  have "unchanged ?w0 w2" using nested_frame(1)[OF c assms] .
  then show ?thesis by (simp add: unchanged_def call_enter_def)
qed

lemma root_throw_frame:
  assumes root: "mutatorCallStackCount w = 0"
    and i: "invoke fuel env m args w = (Inl e, w')"
  shows "store_state w' = store_state w \<and> mutatorEvents w' = mutatorEvents w
         \<and> mutatorCallStackCount w' = 0"
proof (cases fuel)
  case 0
  with i root show ?thesis by simp
next
  case (Suc n)
  show ?thesis
  proof (cases "map_of (mutatorFns w) m")
    case None
    with i root Suc show ?thesis by simp
  next
    case (Some f)
    let ?w0 = "call_enter True (createProxy (store_state w)) (w\<lparr>mutatorCallStackCount := 1\<rparr>)"
    obtain r2 w2 where e: "exec_stmts n env args (fn_body f) ?w0 = (r2, w2)"
      by (cases "exec_stmts n env args (fn_body f) ?w0") auto
    note u2 = root_body_frame[OF e]
    note ir = invoke_root_cases[OF root Some e]
    show ?thesis
    proof (cases r2)
      case (Inl e2)
      with ir i Suc u2 show ?thesis by auto
    next
      case (Inr res)
      obtain r3 w3 where l: "call_leave env True m f args res w2 = (r3, w3)"
        by (cases "call_leave env True m f args res w2") auto
      from call_leave_unchanged[OF l] u2 have u3: "store_state w3 = store_state w"
        "mutatorEvents w3 = mutatorEvents w" "mutatorCallStackCount w3 = 1"
        by (simp_all add: unchanged_def)
      from ir i Suc Inr l u3 show ?thesis by (cases r3) auto
    qed
  qed
qed

lemma throwing_store_eq:
  "throwing_store =
     \<lparr>storeId = '''', store_state = Obj [(''a'', Num 0)], mutatorCallStackCount = 0,
      mutatorEvents = [\<lparr>ev_storeId = Str '''', ev_action = [(''type'', Str ''@@INIT'')],
                        ev_state = Obj [(''a'', Num 0)], ev_duration = None\<rparr>],
      proxyObj = [], thisObj = [], mutatorFns = [(''mut1'', throwing_mut1)], now = 0\<rparr>"
  by (simp add: throwing_store_def Store_constructor_def test_env_def processMutator_def
        setState_def deepFreeze_def failIfInstanceMembersExistExceptState_def keys_def
        createMutatorsProxy_def Let_def)

text \<open>
  Claim C1 (atomicity). A mutator method is called at the root (the call stack counter
  is 0) and its body, run on the fresh draft, throws \<open>e\<close>. Then the wrapper throws the
  same \<open>e\<close> to its caller, the committed state of the store is the one before the
  call, no \<open>MutatorEvent\<close> has been passed to the subject, and the counter is back
  at 0. The body may have written to the draft and called other mutators before
  throwing.
\<close>

theorem root_call_throw_is_atomic:
  assumes "mutatorCallStackCount w = 0"
    and "map_of (mutatorFns w) m = Some f"
    and "exec_stmts fuel env args (fn_body f)
           (call_enter True (createProxy (store_state w)) (w\<lparr>mutatorCallStackCount := 1\<rparr>))
         = (Inl e, w2)"
  shows "\<exists>w'. invoke (Suc fuel) env m args w = (Inl e, w')
              \<and> store_state w' = store_state w
              \<and> mutatorEvents w' = mutatorEvents w
              \<and> mutatorCallStackCount w' = 0"
proof -
  from invoke_root_cases[OF assms]
  have i: "invoke (Suc fuel) env m args w
             = (Inl e, w2\<lparr>mutatorCallStackCount := mutatorCallStackCount w2 - 1\<rparr>)"
    by simp
  from root_throw_frame[OF assms(1) i] i show ?thesis by blast
qed

theorem root_call_throw_is_atomic_witness:
  "\<exists>w'. invoke (Suc (Suc 0)) test_env ''mut1'' [] throwing_store = (Inl (Error ''''), w')
        \<and> store_state w' = Obj [(''a'', Num 0)]
        \<and> mutatorEvents w' = mutatorEvents throwing_store
        \<and> mutatorCallStackCount w' = 0"
proof -
  have h1: "mutatorCallStackCount throwing_store = 0"
    by (simp add: throwing_store_eq)
  have h2: "map_of (mutatorFns throwing_store) ''mut1'' = Some throwing_mut1"
    by (simp add: throwing_store_eq)
  obtain w2 where h3: "exec_stmts (Suc 0) test_env [] (fn_body throwing_mut1)
           (call_enter True (createProxy (store_state throwing_store))
              (throwing_store\<lparr>mutatorCallStackCount := 1\<rparr>))
         = (Inl (Error ''''), w2)"
    by (simp add: throwing_store_eq throwing_mut1_def call_enter_def createProxy_def
          get_thisObj_def get_proxyObj_def num_prop_def)
  from root_call_throw_is_atomic[OF h1 h2 h3] show ?thesis
    by (simp add: throwing_store_eq)
qed

subsection \<open>Nested calls and the draft\<close>

lemma invoke_nested_cases:
  assumes nested: "0 < mutatorCallStackCount w"
    and f: "map_of (mutatorFns w) m = Some f"
    and e: "exec_stmts fuel env args (fn_body f)
              (w\<lparr>mutatorCallStackCount := mutatorCallStackCount w + 1\<rparr>) = (r2, w2)"
  shows "invoke (Suc fuel) env m args w =
     (case r2 of
        Inl e \<Rightarrow> (Inl e, w2\<lparr>mutatorCallStackCount := mutatorCallStackCount w2 - 1\<rparr>)
      | Inr result \<Rightarrow>
          (case call_leave env False m f args result w2 of
             (Inl e, w3) \<Rightarrow> (Inl e, w3\<lparr>mutatorCallStackCount := mutatorCallStackCount w3 - 1\<rparr>)
           | (Inr ev, w3) \<Rightarrow>
               (Inr Undefined, w3\<lparr>mutatorCallStackCount := mutatorCallStackCount w3 - 1\<rparr>)))"
  using nested f e
  by (simp add: mutateState_def Let_def call_enter_def split: sum.splits prod.splits)

lemma get_thisObj_count [simp]:
  "get_thisObj (w\<lparr>mutatorCallStackCount := n\<rparr>) k = get_thisObj w k"
  by (simp add: get_thisObj_def get_proxyObj_def split: option.splits)

lemma get_thisObj_now [simp]:
  "get_thisObj (w\<lparr>now := n\<rparr>) k = get_thisObj w k"
  by (simp add: get_thisObj_def get_proxyObj_def split: option.splits)

lemma map_of_update_same: "map_of (AList.update k v al) k = Some v"
  by (simp add: update_conv')

lemma get_thisObj_own_update:
  "get_thisObj (w\<lparr>thisObj := AList.update k v (thisObj w)\<rparr>) k' =
     (if k' = k then v else get_thisObj w k')"
  by (simp add: get_thisObj_def get_proxyObj_def update_conv' split: option.splits)

lemma get_thisObj_proxy_update:
  "k \<notin> set (map fst (thisObj w)) \<Longrightarrow>
   get_thisObj (w\<lparr>proxyObj := AList.update k v (proxyObj w)\<rparr>) k = v"
  by (auto simp: get_thisObj_def get_proxyObj_def update_conv' split: option.splits
        dest: map_of_SomeD intro: rev_image_eqI)

lemma get_thisObj_write_back:
  "get_thisObj (w\<lparr>proxyObj := AList.update k (get_thisObj w k) (proxyObj w)\<rparr>) k
     = get_thisObj w k"
  by (simp add: get_thisObj_def get_proxyObj_def update_conv' split: option.splits)

lemma get_proxyObj_update:
  "get_proxyObj (w\<lparr>proxyObj := AList.update k v (proxyObj w)\<rparr>) k = v"
  by (simp add: get_proxyObj_def update_conv')

lemma failIfNotUndefined_ok: "failIfNotUndefined env v = Inr u \<Longrightarrow> v = Undefined"
  by (simp add: failIfNotUndefined_def split: if_splits)

lemma call_leave_ok:
  assumes "call_leave env isRoot m f as res w = (Inr ev, w')"
  shows "w' = w\<lparr>proxyObj := AList.update ''state'' (get_thisObj w ''state'') (proxyObj w)\<rparr>"
    and "ev_state ev = get_thisObj w ''state''"
    and "ev_action ev = createActionFromArguments m (fn_source f) as"
    and "ev_duration ev = None"
    and "res = Undefined"
    and "failIfInstanceMembersExistExceptState env (thisObj w) = Inr ()"
proof -
  obtain u1 where c1: "failIfNotUndefined env res = Inr u1"
    using assms by (cases "failIfNotUndefined env res") (auto simp: call_leave_def)
  obtain u2 where c2: "failIfInstanceMembersExistExceptState env (thisObj w) = Inr u2"
    using assms c1
    by (cases "failIfInstanceMembersExistExceptState env (thisObj w)")
       (auto simp: call_leave_def)
  from assms c1 c2
  have ev: "ev = \<lparr>ev_storeId =
                     (if isRoot
                      then get_proxyObj (w\<lparr>proxyObj := AList.update ''state'' (get_thisObj w ''state'') (proxyObj w)\<rparr>) ''storeId''
                      else get_thisObj (w\<lparr>proxyObj := AList.update ''state'' (get_thisObj w ''state'') (proxyObj w)\<rparr>) ''storeId''),
                   ev_action = createActionFromArguments m (fn_source f) as,
                   ev_state = get_proxyObj (w\<lparr>proxyObj := AList.update ''state'' (get_thisObj w ''state'') (proxyObj w)\<rparr>) ''state'',
                   ev_duration = None\<rparr>"
    and w': "w' = w\<lparr>proxyObj := AList.update ''state'' (get_thisObj w ''state'') (proxyObj w)\<rparr>"
    by (auto simp: call_leave_def Let_def)
  show "w' = w\<lparr>proxyObj := AList.update ''state'' (get_thisObj w ''state'') (proxyObj w)\<rparr>"
    by (rule w')
  show "ev_state ev = get_thisObj w ''state''"
    by (simp add: ev get_proxyObj_update)
  show "ev_action ev = createActionFromArguments m (fn_source f) as" by (simp add: ev)
  show "ev_duration ev = None" by (simp add: ev)
  show "res = Undefined" using c1 by (rule failIfNotUndefined_ok)
  show "failIfInstanceMembersExistExceptState env (thisObj w) = Inr ()" using c2 by simp
qed

lemma call_leave_state:
  assumes "call_leave env isRoot m f as res w = (Inr ev, w')"
  shows "get_thisObj w' ''state'' = get_thisObj w ''state''"
  using call_leave_ok(1)[OF assms] by (simp add: get_thisObj_write_back)

lemma draft_refine:
  "0 < mutatorCallStackCount w \<Longrightarrow> exec_stmts fuel env args b w = (Inr v, w') \<Longrightarrow>
     get_thisObj w' ''state'' = draft_stmts fuel (mutatorFns w) args b (get_thisObj w ''state'')"
  "0 < mutatorCallStackCount w \<Longrightarrow> invoke fuel env m as w = (Inr v, w') \<Longrightarrow>
     get_thisObj w' ''state'' = draft_call fuel (mutatorFns w) m as (get_thisObj w ''state'')"
proof (induction fuel env args b w and fuel env m as w arbitrary: v w' and v w'
       rule: exec_stmts_invoke.induct)
  case (1 fuel env args w)
  then show ?case by simp
next
  case (2 fuel env args k e rest w)
  show ?case
  proof (cases "get_thisObj w ''state''")
    case (Obj props)
    let ?s = "Obj (AList.update k (e args (Obj props)) props)"
    let ?w = "if ''state'' \<in> set (map fst (thisObj w))
                 then w\<lparr>thisObj := AList.update ''state'' ?s (thisObj w)\<rparr>
                 else w\<lparr>proxyObj := AList.update ''state'' ?s (proxyObj w)\<rparr>"
    have e: "exec_stmts fuel env args rest ?w = (Inr v, w')"
      using "2.prems"(2) Obj by (simp add: Let_def)
    have c: "0 < mutatorCallStackCount ?w" using "2.prems"(1) by simp
    have g: "get_thisObj ?w ''state'' = ?s"
      by (simp add: get_thisObj_own_update get_thisObj_proxy_update)
    have m: "mutatorFns ?w = mutatorFns w" by simp
    from "2.IH"[OF Obj refl c e] g m Obj show ?thesis by simp
  qed (use "2.prems" in auto)
next
  case (3 fuel env args e rest w)
  from "3.IH"[of v w'] "3.prems" show ?case by (simp add: get_thisObj_own_update)
next
  case (4 fuel env args k v' rest w)
  from "4.IH"[of v w'] "4.prems" show ?case by (simp add: get_thisObj_own_update)
next
  case (5 fuel env args m as rest w)
  obtain r1 w1 where i: "invoke fuel env m as w = (r1, w1)"
    by (cases "invoke fuel env m as w") auto
  have u1: "unchanged w w1" using nested_frame(2)[OF "5.prems"(1) i] .
  from i "5.prems"(2) obtain v1 where r1: "r1 = Inr v1" by (cases r1) auto
  with i "5.prems"(2) have e: "exec_stmts fuel env args rest w1 = (Inr v, w')" by simp
  have c: "0 < mutatorCallStackCount w1" using u1 "5.prems"(1) by (simp add: unchanged_def)
  from "5.IH"(1)[OF "5.prems"(1) i[unfolded r1]] "5.IH"(2)[OF i[symmetric] r1 c e] u1
  show ?case by (simp add: unchanged_def)
next
  case (6 fuel env args c msg rest w)
  then show ?case by (auto split: if_splits)
next
  case (7 fuel env args v' rest w)
  then show ?case by auto
next
  case (8 fuel env args n rest w)
  from "8.IH"[of v w'] "8.prems" show ?case by simp
next
  case (9 env mutatorName args w)
  then show ?case by simp
next
  case (10 fuel env mutatorName args w)
  show ?case
  proof (cases "map_of (mutatorFns w) mutatorName")
    case None
    with "10.prems" show ?thesis by simp
  next
    case (Some f)
    let ?w1 = "w\<lparr>mutatorCallStackCount := mutatorCallStackCount w + 1\<rparr>"
    obtain r2 w2 where e: "exec_stmts fuel env args (fn_body f) ?w1 = (r2, w2)"
      by (cases "exec_stmts fuel env args (fn_body f) ?w1") auto
    note ic = invoke_nested_cases[OF "10.prems"(1) Some e]
    from ic "10.prems"(2) obtain res where r2: "r2 = Inr res" by (cases r2) auto
    obtain r3 w3 where l: "call_leave env False mutatorName f args res w2 = (r3, w3)"
      by (cases "call_leave env False mutatorName f args res w2") auto
    from ic "10.prems"(2) r2 l obtain ev where r3: "r3 = Inr ev" by (cases r3) auto
    from ic "10.prems"(2) r2 l r3
    have w': "w' = w3\<lparr>mutatorCallStackCount := mutatorCallStackCount w3 - 1\<rparr>" by simp
    have c: "0 < mutatorCallStackCount (call_enter False s ?w1)" for s
      by (simp add: call_enter_def)
    have e': "exec_stmts fuel env args (fn_body f) (call_enter False Undefined ?w1) = (Inr res, w2)"
      using e r2 by (simp add: call_enter_def)
    from "10.IH"[OF Some c e']
    have "get_thisObj w2 ''state''
            = draft_stmts fuel (mutatorFns w) args (fn_body f) (get_thisObj w ''state'')"
      by (simp add: call_enter_def)
    with call_leave_state[OF l[unfolded r3]] w' Some show ?thesis by simp
  qed
qed

lemma call_enter_root_state:
  "get_thisObj (call_enter True d w) ''state'' = d"
  by (simp add: call_enter_def get_thisObj_def get_proxyObj_def update_conv')

text \<open>
  Claim C2 (nested calls are merged). A call at the root that returns has passed exactly
  one \<open>MutatorEvent\<close> to the subject. Its state, which is also the committed state
  after the call, is the draft of the root call after every method of the call tree
  has written to it in turn: \<open>draft_call\<close> threads the one draft made from the
  committed state through the root method and all the methods it calls, so no nested
  call works on a snapshot of its own.
\<close>

theorem nested_calls_share_one_draft:
  assumes root: "mutatorCallStackCount w = 0"
    and ok: "invoke fuel env m args w = (Inr v, w')"
  shows "\<exists>ev. mutatorEvents w' = mutatorEvents w @ [ev]
              \<and> ev_state ev = draft_call fuel (mutatorFns w) m args (createProxy (store_state w))
              \<and> store_state w' = ev_state ev"
proof -
  from ok obtain n where fuel: "fuel = Suc n" by (cases fuel) auto
  from ok fuel obtain f where f: "map_of (mutatorFns w) m = Some f"
    by (cases "map_of (mutatorFns w) m") auto
  let ?d = "createProxy (store_state w)"
  let ?w0 = "call_enter True ?d (w\<lparr>mutatorCallStackCount := 1\<rparr>)"
  obtain r2 w2 where e: "exec_stmts n env args (fn_body f) ?w0 = (r2, w2)"
    by (cases "exec_stmts n env args (fn_body f) ?w0") auto
  note ir = invoke_root_cases[OF root f e]
  from ir ok fuel obtain res where r2: "r2 = Inr res" by (cases r2) auto
  obtain r3 w3 where l: "call_leave env True m f args res w2 = (r3, w3)"
    by (cases "call_leave env True m f args res w2") auto
  from ir ok fuel r2 l obtain ev where r3: "r3 = Inr ev" by (cases r3) auto
  let ?ev = "if devMode env then ev\<lparr>ev_duration := Some (now w3 - now w)\<rparr> else ev"
  from ir ok fuel r2 l r3
  have w': "w' = (processMutator env ?ev w3)
                   \<lparr>mutatorCallStackCount := mutatorCallStackCount w3 - 1\<rparr>"
    by simp
  note lo = call_leave_ok[OF l[unfolded r3]]
  note fr = root_body_frame[OF e]
  have c: "0 < mutatorCallStackCount ?w0" by (simp add: call_enter_def)
  have m0: "mutatorFns ?w0 = mutatorFns w" by (simp add: call_enter_def)
  have "get_thisObj w2 ''state''
          = draft_stmts n (mutatorFns ?w0) args (fn_body f) (get_thisObj ?w0 ''state'')"
    using draft_refine(1)[OF c e[unfolded r2]] .
  then have d: "get_thisObj w2 ''state'' = draft_call fuel (mutatorFns w) m args ?d"
    by (simp only: call_enter_root_state m0 fuel draft_call.simps f option.case)
  have ev3: "mutatorEvents w3 = mutatorEvents w"
    using lo(1) fr by simp
  have "mutatorEvents w' = mutatorEvents w @ [?ev]"
    by (simp add: w' processMutator_def setState_def Let_def ev3)
  moreover have "ev_state ?ev = draft_call fuel (mutatorFns w) m args ?d"
    using lo(2) d by simp
  moreover have "store_state w' = ev_state ?ev"
    by (simp add: w' processMutator_def setState_def Let_def deepFreeze_def)
  ultimately show ?thesis by blast
qed

lemma merged_store_eq:
  "merged_store =
     \<lparr>storeId = ''TestStore'', store_state = Obj [(''n1'', Str '''')], mutatorCallStackCount = 0,
      mutatorEvents = [\<lparr>ev_storeId = Str ''TestStore'', ev_action = [(''type'', Str ''@@INIT'')],
                        ev_state = Obj [(''n1'', Str '''')], ev_duration = None\<rparr>],
      proxyObj = [], thisObj = [], mutatorFns = merged_methods, now = 0\<rparr>"
  by (simp add: merged_store_def Store_constructor_def test_env_def processMutator_def
        setState_def deepFreeze_def failIfInstanceMembersExistExceptState_def keys_def
        createMutatorsProxy_def Let_def)

lemma merged_run:
  "\<exists>w'. invoke (Suc (Suc 0)) test_env ''mod1'' [] merged_store = (Inr Undefined, w')"
  by (simp add: merged_store_eq merged_methods_def append_n1_def mutateState_def
        call_enter_def call_leave_def createProxy_def get_thisObj_def get_proxyObj_def
        failIfNotUndefined_def failIfInstanceMembersExistExceptState_def keys_def
        is_array_index_def Let_def)

theorem nested_calls_share_one_draft_witness:
  "\<exists>w' ev. invoke (Suc (Suc 0)) test_env ''mod1'' [] merged_store = (Inr Undefined, w')
      \<and> mutatorEvents w' = mutatorEvents merged_store @ [ev]
      \<and> ev_state ev = Obj [(''n1'', Str ''123'')]
      \<and> store_state w' = Obj [(''n1'', Str ''123'')]"
proof -
  have h1: "mutatorCallStackCount merged_store = 0" by (simp add: merged_store_eq)
  obtain w' where h2: "invoke (Suc (Suc 0)) test_env ''mod1'' [] merged_store = (Inr Undefined, w')"
    using merged_run by blast
  have d: "draft_call (Suc (Suc 0)) (mutatorFns merged_store) ''mod1'' []
             (createProxy (store_state merged_store)) = Obj [(''n1'', Str ''123'')]"
    by (simp add: merged_store_eq merged_methods_def append_n1_def createProxy_def str_prop_def)
  from nested_calls_share_one_draft[OF h1 h2] d h2 show ?thesis by auto
qed

subsection \<open>Members of \<open>this\<close> other than \<open>state\<close>\<close>

lemma set_keys: "set (keys obj) = fst ` set obj"
  by (auto simp: keys_def Let_def)

lemma sublist_prepend: "sublist xs ys \<Longrightarrow> sublist xs (ps @ ys)"
  by (simp add: sublist_append)

lemma sublist_join: "k \<in> set xs \<Longrightarrow> sublist k (join sep xs)"
proof (induction sep xs rule: join.induct)
  case (1 sep)
  then show ?case by simp
next
  case (2 sep x)
  then show ?case by simp
next
  case (3 sep x y ys)
  show ?case
  proof (cases "k = x")
    case True
    then show ?thesis by (simp add: sublist_append_rightI)
  next
    case False
    with 3 have "sublist k (join sep (y # ys))" by simp
    then show ?thesis by (simp add: sublist_append)
  qed
qed

lemma failIfInstanceMembers_reports:
  assumes "k \<in> fst ` set obj" and "k \<noteq> ''state''"
  shows "\<exists>members. failIfInstanceMembersExistExceptState env obj
                       = Inl (Error (mutatorHasInstanceMembers env @ '': '' @ join '','' members))
                   \<and> k \<in> set members
                   \<and> sublist k (mutatorHasInstanceMembers env @ '': '' @ join '','' members)"
proof -
  let ?ms = "if ''state'' \<in> set (keys obj) then remove1 ''state'' (keys obj) else keys obj"
  have k: "k \<in> set ?ms" using assms by (simp add: set_keys)
  then have ne: "0 < length ?ms" by (cases ?ms) auto
  have f: "failIfInstanceMembersExistExceptState env obj
             = Inl (Error (mutatorHasInstanceMembers env @ '': '' @ join '','' ?ms))"
    using ne unfolding failIfInstanceMembersExistExceptState_def Let_def by simp
  have "sublist k (join '','' ?ms)" using k by (rule sublist_join)
  then have "sublist k ('': '' @ join '','' ?ms)" by (rule sublist_prepend)
  then have s: "sublist k (mutatorHasInstanceMembers env @ '': '' @ join '','' ?ms)"
    by (rule sublist_prepend)
  from f k s show ?thesis by blast
qed

lemma failIfInstanceMembers_ok_iff:
  "failIfInstanceMembersExistExceptState env obj = Inr () \<longleftrightarrow> set (remove1 ''state'' (keys obj)) = {}"
  by (auto simp: failIfInstanceMembersExistExceptState_def Let_def remove1_idem)

lemma invoke_leave_throws:
  assumes f: "map_of (mutatorFns w) m = Some f"
    and e: "exec_stmts fuel env args (fn_body f)
              (call_enter (mutatorCallStackCount w = 0) (createProxy (store_state w))
                 (w\<lparr>mutatorCallStackCount := mutatorCallStackCount w + 1\<rparr>))
            = (Inr res, w2)"
    and l: "call_leave env (mutatorCallStackCount w = 0) m f args res w2 = (Inl err, w3)"
  shows "\<exists>w'. invoke (Suc fuel) env m args w = (Inl err, w')"
proof (cases "mutatorCallStackCount w = 0")
  case True
  from e True have e': "exec_stmts fuel env args (fn_body f)
      (call_enter True (createProxy (store_state w)) (w\<lparr>mutatorCallStackCount := 1\<rparr>))
      = (Inr res, w2)" by simp
  from invoke_root_cases[OF True f e'] l True show ?thesis by simp
next
  case False
  then have n: "0 < mutatorCallStackCount w" by simp
  from e False have e': "exec_stmts fuel env args (fn_body f)
      (w\<lparr>mutatorCallStackCount := mutatorCallStackCount w + 1\<rparr>) = (Inr res, w2)"
    by (simp add: call_enter_def)
  from invoke_nested_cases[OF n f e'] l False show ?thesis by simp
qed

lemma invoke_body_throws:
  assumes f: "map_of (mutatorFns w) m = Some f"
    and e: "exec_stmts fuel env args (fn_body f)
              (call_enter (mutatorCallStackCount w = 0) (createProxy (store_state w))
                 (w\<lparr>mutatorCallStackCount := mutatorCallStackCount w + 1\<rparr>))
            = (Inl err, w2)"
  shows "\<exists>w'. invoke (Suc fuel) env m args w = (Inl err, w')"
proof (cases "mutatorCallStackCount w = 0")
  case True
  from e True have e': "exec_stmts fuel env args (fn_body f)
      (call_enter True (createProxy (store_state w)) (w\<lparr>mutatorCallStackCount := 1\<rparr>))
      = (Inl err, w2)" by simp
  from invoke_root_cases[OF True f e'] show ?thesis by simp
next
  case False
  then have n: "0 < mutatorCallStackCount w" by simp
  from e False have e': "exec_stmts fuel env args (fn_body f)
      (w\<lparr>mutatorCallStackCount := mutatorCallStackCount w + 1\<rparr>) = (Inl err, w2)"
    by (simp add: call_enter_def)
  from invoke_nested_cases[OF n f e'] show ?thesis by simp
qed

text \<open>
  Claim C5 (illegal members), as the code has it. \<open>k\<close> is a member name other than
  \<open>state\<close>. If the mutators instance given to the constructor has \<open>k\<close> as an own
  member, the constructor throws, and the message lists \<open>k\<close> among the members it
  names. If a mutator method, called at the root or from another mutator, leaves \<open>k\<close>
  as an own member of its \<open>this\<close>, the call throws; the error is the one of
  \<open>failIfInstanceMembersExistExceptState\<close>, with \<open>k\<close> in its message, when the method
  itself returned without a value. The call of the method and the test of the value
  it returned come before the member check: an error thrown there is the one reported,
  and the member check is not reached.
\<close>

theorem illegal_member_is_reported:
  assumes "k \<noteq> ''state''"
  shows "(k \<in> fst ` set (own_members mutatorInstance) \<longrightarrow>
           (\<exists>members w.
              Store_constructor env sid mutatorInstance s t0
                = (Inl (Error (mutatorHasInstanceMembers env @ '': '' @ join '','' members)), w)
              \<and> k \<in> set members
              \<and> sublist k (mutatorHasInstanceMembers env @ '': '' @ join '','' members)))
       \<and> (map_of (mutatorFns w) m = Some f
           \<and> exec_stmts fuel env args (fn_body f)
               (call_enter (mutatorCallStackCount w = 0) (createProxy (store_state w))
                  (w\<lparr>mutatorCallStackCount := mutatorCallStackCount w + 1\<rparr>))
               = (r2, w2)
           \<and> k \<in> fst ` set (thisObj w2) \<longrightarrow>
           (\<exists>err w'.
              invoke (Suc fuel) env m args w = (Inl err, w')
              \<and> (r2 = Inr Undefined \<longrightarrow>
                   (\<exists>members.
                      err = Error (mutatorHasInstanceMembers env @ '': '' @ join '','' members)
                      \<and> k \<in> set members
                      \<and> sublist k (mutatorHasInstanceMembers env @ '': '' @ join '','' members)))))"
proof (intro conjI impI)
  assume "k \<in> fst ` set (own_members mutatorInstance)"
  from failIfInstanceMembers_reports[OF this assms, of env]
  obtain members where
    m: "failIfInstanceMembersExistExceptState env (own_members mutatorInstance)
          = Inl (Error (mutatorHasInstanceMembers env @ '': '' @ join '','' members))"
       "k \<in> set members"
       "sublist k (mutatorHasInstanceMembers env @ '': '' @ join '','' members)"
    by blast
  from m(1) have "fst (Store_constructor env sid mutatorInstance s t0)
      = Inl (Error (mutatorHasInstanceMembers env @ '': '' @ join '','' members))"
    by (simp add: Store_constructor_def Let_def)
  with m(2,3) show "\<exists>members w.
              Store_constructor env sid mutatorInstance s t0
                = (Inl (Error (mutatorHasInstanceMembers env @ '': '' @ join '','' members)), w)
              \<and> k \<in> set members
              \<and> sublist k (mutatorHasInstanceMembers env @ '': '' @ join '','' members)"
    by (metis prod.collapse)
next
  assume a: "map_of (mutatorFns w) m = Some f
           \<and> exec_stmts fuel env args (fn_body f)
               (call_enter (mutatorCallStackCount w = 0) (createProxy (store_state w))
                  (w\<lparr>mutatorCallStackCount := mutatorCallStackCount w + 1\<rparr>))
               = (r2, w2)
           \<and> k \<in> fst ` set (thisObj w2)"
  then have f: "map_of (mutatorFns w) m = Some f"
    and e: "exec_stmts fuel env args (fn_body f)
               (call_enter (mutatorCallStackCount w = 0) (createProxy (store_state w))
                  (w\<lparr>mutatorCallStackCount := mutatorCallStackCount w + 1\<rparr>))
               = (r2, w2)"
    and k: "k \<in> fst ` set (thisObj w2)" by simp_all
  from failIfInstanceMembers_reports[OF k assms, of env]
  obtain members where
    m: "failIfInstanceMembersExistExceptState env (thisObj w2)
          = Inl (Error (mutatorHasInstanceMembers env @ '': '' @ join '','' members))"
       "k \<in> set members"
       "sublist k (mutatorHasInstanceMembers env @ '': '' @ join '','' members)"
    by blast
  show "\<exists>err w'.
              invoke (Suc fuel) env m args w = (Inl err, w')
              \<and> (r2 = Inr Undefined \<longrightarrow>
                   (\<exists>members.
                      err = Error (mutatorHasInstanceMembers env @ '': '' @ join '','' members)
                      \<and> k \<in> set members
                      \<and> sublist k (mutatorHasInstanceMembers env @ '': '' @ join '','' members)))"
  proof (cases r2)
    case (Inl err)
    from invoke_body_throws[OF f e[unfolded Inl]] Inl show ?thesis by auto
  next
    case (Inr res)
    show ?thesis
    proof (cases "res = Undefined")
      case True
      have l: "call_leave env (mutatorCallStackCount w = 0) m f args res w2
             = (Inl (Error (mutatorHasInstanceMembers env @ '': '' @ join '','' members)), w2)"
        by (simp add: call_leave_def failIfNotUndefined_def m(1) True)
      from invoke_leave_throws[OF f e[unfolded Inr] l] m(2,3) show ?thesis by blast
    next
      case False
      have l: "call_leave env (mutatorCallStackCount w = 0) m f args res w2
             = (Inl (Error (mutatorWrongReturnType env)), w2)"
        by (simp add: call_leave_def failIfNotUndefined_def False)
      from invoke_leave_throws[OF f e[unfolded Inr] l] Inr False show ?thesis by auto
    qed
  qed
qed

lemma member_store_eq:
  "member_store =
     \<lparr>storeId = ''myStore'', store_state = Obj [], mutatorCallStackCount = 0,
      mutatorEvents = [\<lparr>ev_storeId = Str ''myStore'', ev_action = [(''type'', Str ''@@INIT'')],
                        ev_state = Obj [], ev_duration = None\<rparr>],
      proxyObj = [], thisObj = [], mutatorFns = [(''mut'', member_mut)], now = 0\<rparr>"
  by (simp add: member_store_def Store_constructor_def test_env_def processMutator_def
        setState_def deepFreeze_def failIfInstanceMembersExistExceptState_def keys_def
        createMutatorsProxy_def Let_def)

theorem illegal_member_is_reported_witness:
  "(\<exists>members w.
      Store_constructor test_env ''myStore'' member_instance (Obj []) 0
        = (Inl (Error (mutatorHasInstanceMembers test_env @ '': '' @ join '','' members)), w)
      \<and> ''abc'' \<in> set members)
   \<and> (\<exists>members w'.
      invoke (Suc 0) test_env ''mut'' [] member_store
        = (Inl (Error (mutatorHasInstanceMembers test_env @ '': '' @ join '','' members)), w')
      \<and> ''abc'' \<in> set members)"
proof -
  have k: "''abc'' \<noteq> ''state''" by simp
  have h1: "''abc'' \<in> fst ` set (own_members member_instance)"
    by (simp add: member_instance_def)
  have h2: "map_of (mutatorFns member_store) ''mut'' = Some member_mut"
    by (simp add: member_store_eq)
  obtain w2 where h3: "exec_stmts 0 test_env [] (fn_body member_mut)
               (call_enter (mutatorCallStackCount member_store = 0)
                  (createProxy (store_state member_store))
                  (member_store\<lparr>mutatorCallStackCount :=
                                   mutatorCallStackCount member_store + 1\<rparr>))
               = (Inr Undefined, w2)" and h4: "''abc'' \<in> fst ` set (thisObj w2)"
    by (simp add: member_store_eq member_mut_def call_enter_def)
  note t = illegal_member_is_reported[OF k, of member_instance test_env "''myStore''" "Obj []" 0
             member_store "''mut''" member_mut 0 "[]" "Inr Undefined" w2]
  from t[THEN conjunct1, rule_format, OF h1]
       t[THEN conjunct2, rule_format, OF conjI[OF h2 conjI[OF h3 h4]]]
  show ?thesis by blast
qed

lemma member_throw_store_eq:
  "member_throw_store =
     \<lparr>storeId = ''myStore'', store_state = Obj [], mutatorCallStackCount = 0,
      mutatorEvents = [\<lparr>ev_storeId = Str ''myStore'', ev_action = [(''type'', Str ''@@INIT'')],
                        ev_state = Obj [], ev_duration = None\<rparr>],
      proxyObj = [], thisObj = [], mutatorFns = [(''mut'', member_throw_mut)], now = 0\<rparr>"
  by (simp add: member_throw_store_def Store_constructor_def test_env_def processMutator_def
        setState_def deepFreeze_def failIfInstanceMembersExistExceptState_def keys_def
        createMutatorsProxy_def Let_def)

text \<open>
  The claim as stated fails: a method that creates the member \<open>abc\<close> and then throws
  \<open>Error("x")\<close> has that error thrown by the call, and its message does not name the
  member, which is on \<open>this\<close> when the call ends.
\<close>

theorem member_not_named_when_method_throws:
  "(\<exists>w'. invoke (Suc 0) test_env ''mut'' [] member_throw_store = (Inl (Error ''x''), w')
         \<and> ''abc'' \<in> fst ` set (thisObj w'))
   \<and> \<not> sublist ''abc'' ''x''"
proof -
  have g1: "mutatorCallStackCount member_throw_store = 0" by (simp add: member_throw_store_eq)
  have g2: "map_of (mutatorFns member_throw_store) ''mut'' = Some member_throw_mut"
    by (simp add: member_throw_store_eq)
  have g3: "exec_stmts 0 test_env [] (fn_body member_throw_mut)
              (call_enter True (createProxy (store_state member_throw_store))
                 (member_throw_store\<lparr>mutatorCallStackCount := 1\<rparr>))
            = (Inl (Error ''x''),
               (call_enter True (createProxy (store_state member_throw_store))
                 (member_throw_store\<lparr>mutatorCallStackCount := 1\<rparr>))\<lparr>thisObj := [(''abc'', Num 1)]\<rparr>)"
    by (simp add: member_throw_mut_def call_enter_def)
  have a: "\<exists>w'. invoke (Suc 0) test_env ''mut'' [] member_throw_store = (Inl (Error ''x''), w')
         \<and> ''abc'' \<in> fst ` set (thisObj w')"
    unfolding invoke_root_cases[OF g1 g2 g3] by simp
  have "length ''abc'' \<le> length ''x''" if "sublist ''abc'' ''x''"
    using that by (rule sublist_length_le)
  then have b: "\<not> sublist ''abc'' ''x''" by auto
  from a b show ?thesis by simp
qed

subsection \<open>The committed event\<close>

lemma counter_store_eq:
  "counter_store =
     \<lparr>storeId = ''counter'', store_state = Obj [(''a'', Num 1)], mutatorCallStackCount = 0,
      mutatorEvents = [\<lparr>ev_storeId = Str ''counter'', ev_action = [(''type'', Str ''@@INIT'')],
                        ev_state = Obj [(''a'', Num 1)], ev_duration = None\<rparr>],
      proxyObj = [], thisObj = [], mutatorFns = [(''incrementBy'', incrementBy)], now = 0\<rparr>"
  by (simp add: counter_store_def Store_constructor_def test_env_def processMutator_def
        setState_def deepFreeze_def failIfInstanceMembersExistExceptState_def keys_def
        createMutatorsProxy_def Let_def)

lemma incrementBy_action:
  "createActionFromArguments ''incrementBy'' (fn_source incrementBy) [Num 2]
     = [(''[0] by'', Num 2), (''type'', Str ''incrementBy'')]"
  by (simp add: createActionFromArguments_def incrementBy_def substring_def trim_def
        is_space_def show_nat.simps Let_def)

lemma incrementBy_body:
  "exec_stmts 0 test_env [Num 2] (fn_body incrementBy)
     (call_enter True (createProxy (store_state counter_store))
        (counter_store\<lparr>mutatorCallStackCount := 1\<rparr>))
   = (Inr Undefined,
      counter_store\<lparr>mutatorCallStackCount := 1,
                    proxyObj := [(''state'', Obj [(''a'', Num 3)])]\<rparr>)"
  by (simp add: counter_store_eq incrementBy_def call_enter_def createProxy_def
        get_thisObj_def get_proxyObj_def num_prop_def)

lemma incrementBy_leave:
  "call_leave test_env True ''incrementBy'' incrementBy [Num 2] Undefined
     (counter_store\<lparr>mutatorCallStackCount := 1,
                    proxyObj := [(''state'', Obj [(''a'', Num 3)])]\<rparr>)
   = (Inr \<lparr>ev_storeId = Undefined,
           ev_action = [(''[0] by'', Num 2), (''type'', Str ''incrementBy'')],
           ev_state = Obj [(''a'', Num 3)],
           ev_duration = None\<rparr>,
      counter_store\<lparr>mutatorCallStackCount := 1,
                    proxyObj := [(''state'', Obj [(''a'', Num 3)])]\<rparr>)"
  by (simp add: call_leave_def failIfNotUndefined_def failIfInstanceMembersExistExceptState_def
        keys_def incrementBy_action get_thisObj_def get_proxyObj_def counter_store_eq Let_def)

text \<open>
  Claim C10 (what a committed \<open>MutatorEvent\<close> records). The store \<open>"counter"\<close> runs
  \<open>this.mutate.incrementBy(2)\<close>. The event it commits has the bare method name as
  \<open>action.type\<close> and the argument under \<open>"[0] by"\<close>, but its \<open>storeId\<close> field is
  \<open>undefined\<close>, not \<open>"counter"\<close>: inside the wrapper \<open>this\<close> is the proxy
  \<open>this.mutate\<close>, which has no \<open>storeId\<close>; the store is \<open>self\<close>. Only the
  \<open>@@INIT\<close> event, built in the constructor, carries the store id.
\<close>

theorem mutator_event_has_no_store_id:
  "storeId counter_store = ''counter''
   \<and> invoke (Suc 0) test_env ''incrementBy'' [Num 2] counter_store =
     (Inr Undefined,
      counter_store
        \<lparr>store_state := Obj [(''a'', Num 3)],
         mutatorEvents := mutatorEvents counter_store @
           [\<lparr>ev_storeId = Undefined,
             ev_action = [(''[0] by'', Num 2), (''type'', Str ''incrementBy'')],
             ev_state = Obj [(''a'', Num 3)],
             ev_duration = Some 0\<rparr>],
         proxyObj := [(''state'', Obj [(''a'', Num 3)])]\<rparr>)"
proof -
  have h1: "mutatorCallStackCount counter_store = 0" by (simp add: counter_store_eq)
  have h2: "map_of (mutatorFns counter_store) ''incrementBy'' = Some incrementBy"
    by (simp add: counter_store_eq)
  have "invoke (Suc 0) test_env ''incrementBy'' [Num 2] counter_store =
     (Inr Undefined,
      counter_store
        \<lparr>store_state := Obj [(''a'', Num 3)],
         mutatorEvents := mutatorEvents counter_store @
           [\<lparr>ev_storeId = Undefined,
             ev_action = [(''[0] by'', Num 2), (''type'', Str ''incrementBy'')],
             ev_state = Obj [(''a'', Num 3)],
             ev_duration = Some 0\<rparr>],
         proxyObj := [(''state'', Obj [(''a'', Num 3)])]\<rparr>)"
    unfolding invoke_root_cases[OF h1 h2 incrementBy_body] sum.case incrementBy_leave prod.case
    by (simp add: processMutator_def setState_def deepFreeze_def
          test_env_def counter_store_eq)
  then show ?thesis by (simp add: counter_store_eq)
qed

section \<open>Properties of the store with dispatchers\<close>

lemma running_refl: "running w w" by (simp add: running_def)





lemma dispatch_enter_root:
  assumes "runningMutatorStack w = []" and "dispatch_enter env m w = Inr w1"
  shows "\<exists>p. w1 = w\<lparr>before_hooks := before_hooks w @ [m], mutators_state := StateValue p\<rparr>"
  using assms by (auto simp: dispatch_enter_def Let_def split: sum.splits)





subsection \<open>The checks after a call\<close>

lemma invoke_is_wrapper:
  assumes "map_of (mutatorFns w) m = Some f"
  shows "invoke (Suc fuel) env m args w
           = (case mutator_wrapper failIfNotUndefined env m f args
                     (exec_stmts fuel env args (fn_body f)) w of
                (Inl e, w') \<Rightarrow> (Inl e, w')
              | (Inr u, w') \<Rightarrow> (Inr Undefined, w'))"
proof -
  have "invoke (Suc fuel) env m args w
          = (case mutateState env
                    (\<lambda>oldState isRootCall w1.
                       case exec_stmts fuel env args (fn_body f)
                              (call_enter isRootCall oldState w1) of
                         (Inl e, w2) \<Rightarrow> (Inl e, w2)
                       | (Inr result, w2) \<Rightarrow>
                           call_leave env isRootCall m f args result w2)
                    w of
               (Inl e, w') \<Rightarrow> (Inl e, w')
             | (Inr u, w') \<Rightarrow> (Inr Undefined, w'))"
    using assms by simp
  then show ?thesis unfolding mutator_wrapper_def call_leave_def .
qed





lemma returning_store_eq:
  "returning_store =
     \<lparr>storeId = ''s'', store_state = Obj [], mutatorCallStackCount = 0,
      mutatorEvents = [\<lparr>ev_storeId = Str ''s'', ev_action = [(''type'', Str ''@@INIT'')],
                        ev_state = Obj [], ev_duration = None\<rparr>],
      proxyObj = [], thisObj = [], mutatorFns = [(''ret'', returning_mut)], now = 0\<rparr>"
  by (simp add: returning_store_def Store_constructor_def production_env_def test_env_def
        processMutator_def setState_def deepFreeze_def failIfInstanceMembersExistExceptState_def
        keys_def createMutatorsProxy_def Let_def)




subsection \<open>The change stream\<close>

lemma strictEquals_trans:
  "strictEquals a b \<Longrightarrow> strictEquals b c \<Longrightarrow> strictEquals a c"
  by (cases a; cases b; cases c) auto

lemma list_all2_strictEquals_trans:
  "list_all2 strictEquals xs ys \<Longrightarrow> list_all2 strictEquals ys zs \<Longrightarrow> list_all2 strictEquals xs zs"
  by (rule list_all2_trans[where ?P1.0 = strictEquals and ?P2.0 = strictEquals])
     (auto intro: strictEquals_trans)

lemma strictEquals_isArray: "strictEquals a b \<Longrightarrow> isArray a = isArray b"
  by (cases a; cases b) (simp_all add: isArray_def)

lemma select_compare_isArray: "select_compare a b \<Longrightarrow> isArray a = isArray b"
  by (auto simp: select_compare_def dest: strictEquals_isArray split: if_splits)

lemma isShallowEquals_trans:
  "isShallowEquals a b \<Longrightarrow> isShallowEquals b c \<Longrightarrow> isShallowEquals a c"
  by (auto simp: isShallowEquals_def split: jsref.splits
           intro: list_all2_strictEquals_trans)

lemma select_compare_trans:
  assumes "select_compare a b" and "select_compare b c"
  shows "select_compare a c"
proof -
  from assms have ab: "isArray a = isArray b" and bc: "isArray b = isArray c"
    by (auto dest: select_compare_isArray)
  show ?thesis
  proof (cases "isArray b")
    case True
    with ab bc assms have "isShallowEquals a b" "isShallowEquals b c"
      by (simp_all add: select_compare_def)
    then have "isShallowEquals a c" by (rule isShallowEquals_trans)
    with True ab bc show ?thesis by (simp add: select_compare_def)
  next
    case False
    with ab bc assms have "strictEquals a b" "strictEquals b c"
      by (simp_all add: select_compare_def)
    then have "strictEquals a c" by (rule strictEquals_trans)
    with False ab bc show ?thesis by (simp add: select_compare_def)
  qed
qed

lemma distinct_after_snoc:
  "distinct_after compare key (xs @ [x]) =
     distinct_after compare key xs
       @ (if compare (last (key # distinct_after compare key xs)) x then [] else [x])"
  by (induction xs arbitrary: key) auto

lemma distinctUntilChanged_snoc:
  "distinctUntilChanged compare (xs @ [x]) =
     distinctUntilChanged compare xs
       @ (if xs \<noteq> [] \<and> compare (last (distinctUntilChanged compare xs)) x then [] else [x])"
  by (cases xs) (auto simp: distinctUntilChanged_def distinct_after_snoc)


lemma select_snoc:
  "select selector (evs @ [e]) =
     select selector evs
       @ (if evs \<noteq> [] \<and> select_compare (last (select selector evs)) (selected selector e)
          then [] else [selected selector e])"
  unfolding select_def selected_def
  by (simp add: distinctUntilChanged_snoc)

lemma select_nonempty: "evs \<noteq> [] \<Longrightarrow> select selector evs \<noteq> []"
  by (cases evs) (simp_all add: select_def distinctUntilChanged_def)

lemma select_last:
  "last (select selector (evs @ [e])) = selected selector e
   \<or> select_compare (last (select selector (evs @ [e]))) (selected selector e)"
proof (cases "evs \<noteq> [] \<and> select_compare (last (select selector evs)) (selected selector e)")
  case True
  then have "select selector (evs @ [e]) = select selector evs" by (simp add: select_snoc)
  with True show ?thesis by simp
next
  case False
  then have "select selector (evs @ [e]) = select selector evs @ [selected selector e]"
    by (simp add: select_snoc)
  then show ?thesis by simp
qed

lemma select_unchanged:
  assumes "select_compare (selected selector e1) (selected selector e2)"
  shows "select selector (evs @ [e1, e2]) = select selector (evs @ [e1])"
proof -
  have c: "select_compare (last (select selector (evs @ [e1]))) (selected selector e2)"
    using select_last[of selector evs e1] assms by (auto intro: select_compare_trans)
  have "select selector ((evs @ [e1]) @ [e2]) = select selector (evs @ [e1])"
    unfolding select_snoc[of selector "evs @ [e1]" e2] using c by simp
  then show ?thesis by simp
qed

text \<open>
  Claim C7 (de-duplication of the change stream). \<open>select\<close> maps every event to the
  selected value and passes it on only if it is the first one or differs, under
  \<open>select_compare\<close>, from the value passed last: \<open>===\<close> in general, the shallow
  comparison when both are arrays. So an event arriving after \<open>evs\<close> adds exactly that
  to the output. And when two successive events \<open>e1\<close>, \<open>e2\<close> select values that the
  comparison equates, the second adds nothing, for \<open>select\<close> and for
  \<open>selectNonNil\<close>, whatever came before.
\<close>

theorem select_emits_only_on_change:
  "select selector (evs @ [e]) =
     select selector evs
       @ (if evs \<noteq> [] \<and> select_compare (last (select selector evs)) (selected selector e)
          then [] else [selected selector e])
   \<and> (select_compare (selected selector e1) (selected selector e2) \<longrightarrow>
        select selector (evs @ [e1, e2]) = select selector (evs @ [e1]))
   \<and> (select_compare (sel (event_state e1)) (sel (event_state e2)) \<longrightarrow>
        selectNonNil sel (evs @ [e1, e2]) = selectNonNil sel (evs @ [e1]))"
proof (intro conjI impI)
  show "select selector (evs @ [e]) =
     select selector evs
       @ (if evs \<noteq> [] \<and> select_compare (last (select selector evs)) (selected selector e)
          then [] else [selected selector e])"
    by (rule select_snoc)
next
  assume "select_compare (selected selector e1) (selected selector e2)"
  then show "select selector (evs @ [e1, e2]) = select selector (evs @ [e1])"
    by (rule select_unchanged)
next
  assume "select_compare (sel (event_state e1)) (sel (event_state e2))"
  then have "select_compare (selected (Some sel) e1) (selected (Some sel) e2)"
    by (simp add: selected_def)
  then have "select (Some sel) (evs @ [e1, e2]) = select (Some sel) (evs @ [e1])"
    by (rule select_unchanged)
  then show "selectNonNil sel (evs @ [e1, e2]) = selectNonNil sel (evs @ [e1])"
    by (simp add: selectNonNil_def)
qed


theorem select_emits_only_on_change_witness:
  "select (Some select_items) ([items_event 0] @ [items_event 1, items_event 2])
     = [ArrRef 1 [RNum 1]]
   \<and> selectNonNil select_items ([items_event 0] @ [items_event 1, items_event 2])
     = [ArrRef 1 [RNum 1]]
   \<and> select None [items_event 0, items_event 1]
     = [event_state (items_event 0), event_state (items_event 1)]"
proof -
  have c: "select_compare (select_items (event_state (items_event 1)))
             (select_items (event_state (items_event 2)))"
    by (simp add: items_event_def select_items_def select_compare_def isArray_def
          isShallowEquals_def)
  then have c': "select_compare (selected (Some select_items) (items_event 1))
             (selected (Some select_items) (items_event 2))"
    by (simp add: selected_def)
  note t = select_emits_only_on_change
             [where selector = "Some select_items" and evs = "[items_event 0]"
                and ?e1.0 = "items_event 1" and ?e2.0 = "items_event 2" and sel = select_items
                and e = "items_event 1"]
  have s1: "select (Some select_items) ([items_event 0] @ [items_event 1]) = [ArrRef 1 [RNum 1]]"
    by (simp add: select_def distinctUntilChanged_def items_event_def select_items_def
          select_compare_def isArray_def isShallowEquals_def)
  have s2: "selectNonNil select_items ([items_event 0] @ [items_event 1]) = [ArrRef 1 [RNum 1]]"
    by (simp add: selectNonNil_def s1[simplified] isNil_def)
  have s3: "select None [items_event 0, items_event 1]
     = [event_state (items_event 0), event_state (items_event 1)]"
    by (simp add: select_def distinctUntilChanged_def items_event_def
          select_compare_def isArray_def)
  from t c c' s1 s2 s3 show ?thesis by simp
qed

section \<open>Properties of the facade\<close>

subsection \<open>Whose action it is\<close>

lemma indexOf_nonneg_or_minus: "indexOf s n = - 1 \<or> 0 \<le> indexOf s n"
  by (induction s) (auto simp: Let_def)

lemma indexOf_zero_iff: "indexOf s needle = 0 \<longleftrightarrow> prefix needle s"
proof (cases s)
  case Nil
  then show ?thesis by auto
next
  case (Cons c cs)
  have "indexOf cs needle = - 1 \<or> 0 \<le> indexOf cs needle" by (rule indexOf_nonneg_or_minus)
  then show ?thesis using Cons by (auto simp: Let_def)
qed

lemma isActionForThisFacade_iff:
  "isActionForThisFacade fid action
     \<longleftrightarrow> (\<exists>t. action_type action = Str t \<and> prefix (''['' @ fid @ ''] '') t)"
  by (cases "action_type action") (simp_all add: isActionForThisFacade_def indexOf_zero_iff)

lemma facade_reducer_pass:
  "destroyed \<or> \<not> isActionForThisFacade fid action \<Longrightarrow>
     facade_reducer fid destroyed mr mp state action = state"
  by (simp add: facade_reducer_def Let_def)

lemma no_bracket_no_prefix:
  assumes ne: "a \<noteq> b"
    and a: "CHR '']'' \<notin> set a"
    and m: "CHR '']'' \<notin> set m"
  shows "\<not> prefix (''['' @ b @ ''] '') (''['' @ a @ ''] '' @ m)"
proof
  assume "prefix (''['' @ b @ ''] '') (''['' @ a @ ''] '' @ m)"
  then obtain zs where eq: "a @ (''] '' @ m) = b @ (''] '' @ zs)"
    by (auto simp: prefix_def)
  then obtain us where
    "(a = b @ us \<and> us @ (''] '' @ m) = ''] '' @ zs) \<or> (a @ us = b \<and> ''] '' @ m = us @ (''] '' @ zs))"
    by (auto simp: append_eq_append_conv2)
  then show False
  proof
    assume c: "a = b @ us \<and> us @ (''] '' @ m) = ''] '' @ zs"
    show False
    proof (cases us)
      case Nil
      with c ne show False by simp
    next
      case (Cons u us')
      with c have "u = CHR '']''" by simp
      with c Cons a show False by simp
    qed
  next
    assume c: "a @ us = b \<and> ''] '' @ m = us @ (''] '' @ zs)"
    show False
    proof (cases us)
      case Nil
      with c ne show False by simp
    next
      case (Cons u us')
      note u = this
      show False
      proof (cases us')
        case Nil
        with c u show False by simp
      next
        case (Cons u2 us'')
        with c u have "m = us'' @ (''] '' @ zs)" by simp
        with m show False by simp
      qed
    qed
  qed
qed

lemma foreign_action_not_own:
  assumes "a \<noteq> b" "CHR '']'' \<notin> set a" "CHR '']'' \<notin> set m"
  shows "\<not> isActionForThisFacade b
            \<lparr>action_type = Str (createActionName a m), payload = args, action_initialState = i\<rparr>"
  using no_bracket_no_prefix[OF assms]
  by (simp add: isActionForThisFacade_iff createActionName_def)

text \<open>
  Claim C3 (ownership gating), as the code has it. A facade takes an action as its own
  iff \<open>action.type\<close> is a string that starts with \<open>"[" + facadeId + "] "\<close>; on any other
  action, and on every action once it is destroyed, its reducer returns the state it
  was given. If the id of facade A and the name of its command contain no \<open>]\<close>, no
  facade B with another id takes A's action as its own: B's reducer returns the root
  state unchanged, and when A's mount point does not reach into B's slice, B's slice
  is the same after both reducers have run. The roles of A and B are arbitrary, so the
  same holds the other way round.
\<close>

theorem facade_reducer_ownership:
  "(isActionForThisFacade fid action
      \<longleftrightarrow> (\<exists>t. action_type action = Str t \<and> prefix (''['' @ fid @ ''] '') t))
   \<and> (destroyed \<or> \<not> isActionForThisFacade fid action \<longrightarrow>
        facade_reducer fid destroyed mr mp state action = state)
   \<and> (idA \<noteq> idB \<and> CHR '']'' \<notin> set idA \<and> CHR '']'' \<notin> set m \<longrightarrow>
        facade_reducer idB dB mrB mpB rootState
          \<lparr>action_type = Str (createActionName idA m), payload = args,
           action_initialState = None\<rparr> = rootState)
   \<and> (idA \<noteq> idB \<and> CHR '']'' \<notin> set idA \<and> CHR '']'' \<notin> set m
        \<and> (\<forall>r s. extractState mpB (mp_setState mpA r s) = extractState mpB r) \<longrightarrow>
        extractState mpB
          (facade_reducer idB dB mrB mpB
             (facade_reducer idA dA mrA mpA rootState
                \<lparr>action_type = Str (createActionName idA m), payload = args,
                 action_initialState = None\<rparr>)
             \<lparr>action_type = Str (createActionName idA m), payload = args,
              action_initialState = None\<rparr>)
        = extractState mpB rootState)"
proof (intro conjI impI)
  show "isActionForThisFacade fid action
      \<longleftrightarrow> (\<exists>t. action_type action = Str t \<and> prefix (''['' @ fid @ ''] '') t)"
    by (rule isActionForThisFacade_iff)
next
  assume "destroyed \<or> \<not> isActionForThisFacade fid action"
  then show "facade_reducer fid destroyed mr mp state action = state"
    by (rule facade_reducer_pass)
next
  assume a: "idA \<noteq> idB \<and> CHR '']'' \<notin> set idA \<and> CHR '']'' \<notin> set m"
  then have "\<not> isActionForThisFacade idB
            \<lparr>action_type = Str (createActionName idA m), payload = args,
             action_initialState = None\<rparr>"
    by (simp add: foreign_action_not_own)
  then show "facade_reducer idB dB mrB mpB rootState
          \<lparr>action_type = Str (createActionName idA m), payload = args,
           action_initialState = None\<rparr> = rootState"
    by (simp add: facade_reducer_pass)
next
  let ?act = "\<lparr>action_type = Str (createActionName idA m), payload = args,
                 action_initialState = None\<rparr>"
  assume a: "idA \<noteq> idB \<and> CHR '']'' \<notin> set idA \<and> CHR '']'' \<notin> set m
        \<and> (\<forall>r s. extractState mpB (mp_setState mpA r s) = extractState mpB r)"
  then have n: "\<not> isActionForThisFacade idB ?act"
    by (simp add: foreign_action_not_own)
  have "facade_reducer idB dB mrB mpB (facade_reducer idA dA mrA mpA rootState ?act) ?act
          = facade_reducer idA dA mrA mpA rootState ?act"
    using n by (simp add: facade_reducer_pass)
  moreover have "extractState mpB (facade_reducer idA dA mrA mpA rootState ?act)
                   = extractState mpB rootState"
    using a by (simp add: facade_reducer_def Let_def)
  ultimately show "extractState mpB
          (facade_reducer idB dB mrB mpB (facade_reducer idA dA mrA mpA rootState ?act) ?act)
        = extractState mpB rootState"
    by simp
qed

theorem facade_reducer_ownership_witness:
  "facade_reducer ''b'' False (inc_reducer ''b'') (slice ''b'')
     (facade_reducer ''a'' False (inc_reducer ''a'') (slice ''a'') two_slices
        \<lparr>action_type = Str (createActionName ''a'' ''inc''), payload = [],
         action_initialState = None\<rparr>)
     \<lparr>action_type = Str (createActionName ''a'' ''inc''), payload = [],
      action_initialState = None\<rparr>
     = [(''a'', RNum 1), (''b'', RNum 0)]
   \<and> extractState (slice ''b'')
       (facade_reducer ''b'' False (inc_reducer ''b'') (slice ''b'')
          (facade_reducer ''a'' False (inc_reducer ''a'') (slice ''a'') two_slices
             \<lparr>action_type = Str (createActionName ''a'' ''inc''), payload = [],
              action_initialState = None\<rparr>)
          \<lparr>action_type = Str (createActionName ''a'' ''inc''), payload = [],
           action_initialState = None\<rparr>)
       = extractState (slice ''b'') two_slices
   \<and> facade_reducer ''a'' True (inc_reducer ''a'') (slice ''a'') two_slices
        \<lparr>action_type = Str (createActionName ''a'' ''inc''), payload = [],
         action_initialState = None\<rparr> = two_slices"
proof -
  let ?act = "\<lparr>action_type = Str (createActionName ''a'' ''inc''), payload = [],
               action_initialState = None\<rparr>"
  have ids: "''a'' \<noteq> ''b'' \<and> CHR '']'' \<notin> set ''a'' \<and> CHR '']'' \<notin> set ''inc''" by simp
  have dis: "\<forall>r s. extractState (slice ''b'') (mp_setState (slice ''a'') r s)
                     = extractState (slice ''b'') r"
    by (simp add: slice_def update_conv')
  have own: "isActionForThisFacade ''a'' ?act"
    by (simp add: isActionForThisFacade_def createActionName_def)
  have ra: "facade_reducer ''a'' False (inc_reducer ''a'') (slice ''a'') two_slices ?act
              = [(''a'', RNum 1), (''b'', RNum 0)]"
    using own
    by (simp add: facade_reducer_def Let_def slice_def two_slices_def inc_reducer_def draft_of_def)
  note t = facade_reducer_ownership
             [where idA = "''a''" and idB = "''b''" and m = "''inc''" and args = "[]"
                and dB = False and mrB = "inc_reducer ''b''" and mpB = "slice ''b''"
                and mpA = "slice ''a''" and dA = False and mrA = "inc_reducer ''a''"
                and rootState = two_slices
                and fid = "''a''" and action = ?act and destroyed = True
                and mr = "inc_reducer ''a''" and mp = "slice ''a''" and state = two_slices]
  note t3 = facade_reducer_ownership
             [where idA = "''a''" and idB = "''b''" and m = "''inc''" and args = "[]"
                and dB = False and mrB = "inc_reducer ''b''" and mpB = "slice ''b''"
                and rootState = "[(''a'', RNum 1), (''b'', RNum 0)]"]
  have 1: "facade_reducer ''b'' False (inc_reducer ''b'') (slice ''b'')
      [(''a'', RNum 1), (''b'', RNum 0)] ?act = [(''a'', RNum 1), (''b'', RNum 0)]"
    using t3[THEN conjunct2, THEN conjunct2, THEN conjunct1] ids by (rule mp)
  have 2: "extractState (slice ''b'')
       (facade_reducer ''b'' False (inc_reducer ''b'') (slice ''b'')
          (facade_reducer ''a'' False (inc_reducer ''a'') (slice ''a'') two_slices ?act) ?act)
       = extractState (slice ''b'') two_slices"
    using t[THEN conjunct2, THEN conjunct2, THEN conjunct2] conjI[OF ids[THEN conjunct1]
            conjI[OF ids[THEN conjunct2, THEN conjunct1] conjI[OF ids[THEN conjunct2, THEN conjunct2] dis]]]
    by (rule mp)
  have 3: "facade_reducer ''a'' True (inc_reducer ''a'') (slice ''a'') two_slices ?act
                   = two_slices"
    using t[THEN conjunct2, THEN conjunct1] by simp
  from 1 2 3 ra show ?thesis by simp
qed

text \<open>
  For arbitrary distinct ids the claim fails: the facades \<open>"x] y"\<close> and \<open>"x"\<close> give
  the commands \<open>m\<close> and \<open>y] m\<close> the same action type, so the facade \<open>"x"\<close> takes the
  action of \<open>"x] y"\<close> as its own and changes its slice.
\<close>

theorem prefix_gate_collision:
  "''x] y'' \<noteq> ''x''
   \<and> createActionName ''x] y'' ''m'' = createActionName ''x'' ''y] m''
   \<and> isActionForThisFacade ''x''
       \<lparr>action_type = Str (createActionName ''x] y'' ''m''), payload = [],
        action_initialState = None\<rparr>
   \<and> facade_reducer ''x'' False bracket_reducer (slice ''x'') bracket_slices
       \<lparr>action_type = Str (createActionName ''x] y'' ''m''), payload = [],
        action_initialState = None\<rparr>
     = [(''x'', RNum 1), (''x] y'', RNum 0)]
   \<and> extractState (slice ''x'') bracket_slices = RNum 0"
  by (simp add: createActionName_def isActionForThisFacade_def facade_reducer_def Let_def
        bracket_reducer_def bracket_slices_def slice_def draft_of_def)

subsection \<open>Notifications of the mount point\<close>

lemma on_mount_change_fields:
  "microtasks (on_mount_change w)
     = microtasks w @ [DeliverState (ObjRef (next_ref w) (own_props (mount_state w)))]"
  "facade_state (on_mount_change w) = ObjRef (next_ref w) (own_props (mount_state w))"
  "next_ref (on_mount_change w) = next_ref w + 1"
  "bufferedStateChanges (on_mount_change w) = bufferedStateChanges w + 1"
  "mount_subscribed (on_mount_change w) = mount_subscribed w"
  "reduxStoreStateSubject (on_mount_change w) = reduxStoreStateSubject w"
  "dispatched (on_mount_change w) = dispatched w"
  "mount_state (on_mount_change w) = mount_state w"
  by (simp_all add: on_mount_change_def facade_setState_def Let_def)

lemma initial_state_reducer_next_ref [simp]:
  "next_ref (initial_state_reducer a w) = next_ref w"
  by (simp add: initial_state_reducer_def facade_setState_def Let_def)










subsection \<open>The constructor\<close>

lemma seeding_is_own:
  "isActionForThisFacade fid (seeding_action fid v)"
  by (simp add: isActionForThisFacade_def seeding_action_def initialFacadeStateAction_def
        createActionName_def indexOf_zero_iff)

lemma seeding_reduce:
  assumes "initial_reducer w" and "\<not> mount_subscribed w"
  shows "mount_dispatch (seeding_action (facadeId w) v) w =
           w\<lparr>dispatched := dispatched w @ [seeding_action (facadeId w) v],
             facade_state := v,
             reduxStoreStateSubject := subject_next v (reduxStoreStateSubject w),
             mount_state := v\<rparr>"
proof -
  have a: "action_type (seeding_action (facadeId w) v) = Str (initialFacadeStateAction (facadeId w))"
    "action_initialState (seeding_action (facadeId w) v) = Some v"
    by (simp_all add: seeding_action_def)
  show ?thesis
    unfolding mount_dispatch_def Let_def initial_state_reducer_def facade_setState_def
    using assms a by simp
qed

lemma seeding_reduce_subscribed:
  assumes "initial_reducer w" and "mount_subscribed w"
  shows "mount_dispatch (seeding_action (facadeId w) v) w =
           on_mount_change
             (w\<lparr>dispatched := dispatched w @ [seeding_action (facadeId w) v],
                facade_state := v,
                reduxStoreStateSubject := subject_next v (reduxStoreStateSubject w),
                mount_state := v\<rparr>)"
proof -
  have a: "action_type (seeding_action (facadeId w) v) = Str (initialFacadeStateAction (facadeId w))"
    "action_initialState (seeding_action (facadeId w) v) = Some v"
    by (simp_all add: seeding_action_def)
  show ?thesis
    unfolding mount_dispatch_def Let_def initial_state_reducer_def facade_setState_def
    using assms a by simp
qed


lemma constructor_literal:
  assumes "v \<noteq> RUndefined"
  shows "Facade_constructor fid mr (Literal v) mount0 registry0 ref0 =
     \<lparr>facadeId = fid, destroyedState = False, bufferedStateChanges = 0,
      facade_state = v,
      reduxStoreStateSubject = \<lparr>emitted = [mount0, v], completed = False\<rparr>,
      destroyedSubject = [], mutatorReducer = mr,
      mount_state = v, initial_reducer = True,
      mount_subscribed = True, slice_path_free = False,
      dispatched = [seeding_action fid v],
      registry = registry0 @ [fid], microtasks = [], awaiting_initial = False,
      next_ref = ref0, producer_calls = 0\<rparr>"
proof -
  let ?w' = "\<lparr>facadeId = fid, destroyedState = False, bufferedStateChanges = 0,
      facade_state = mount0,
      reduxStoreStateSubject = \<lparr>emitted = [mount0], completed = False\<rparr>,
      destroyedSubject = [], mutatorReducer = mr,
      mount_state = mount0, initial_reducer = True,
      mount_subscribed = False, slice_path_free = False,
      dispatched = [],
      registry = registry0 @ [fid], microtasks = [], awaiting_initial = False,
      next_ref = ref0, producer_calls = 0\<rparr>"
  have d: "mount_dispatch (seeding_action fid v) ?w' =
           ?w'\<lparr>dispatched := dispatched ?w' @ [seeding_action fid v],
             facade_state := v,
             reduxStoreStateSubject := subject_next v (reduxStoreStateSubject ?w'),
             mount_state := v\<rparr>"
    using seeding_reduce[of ?w' v] by simp
  show ?thesis
    unfolding Facade_constructor_def Let_def facade_setState_def
    using assms by (simp add: subject_next_def d)
qed

lemma constructor_producer:
  "Facade_constructor fid mr (Producer v) mount0 registry0 ref0 =
     \<lparr>facadeId = fid, destroyedState = False, bufferedStateChanges = 0,
      facade_state = v,
      reduxStoreStateSubject = \<lparr>emitted = [mount0, v], completed = False\<rparr>,
      destroyedSubject = [], mutatorReducer = mr,
      mount_state = v, initial_reducer = True,
      mount_subscribed = True, slice_path_free = False,
      dispatched = [seeding_action fid v],
      registry = registry0 @ [fid], microtasks = [], awaiting_initial = False,
      next_ref = ref0, producer_calls = 1\<rparr>"
proof -
  let ?w' = "\<lparr>facadeId = fid, destroyedState = False, bufferedStateChanges = 0,
      facade_state = mount0,
      reduxStoreStateSubject = \<lparr>emitted = [mount0], completed = False\<rparr>,
      destroyedSubject = [], mutatorReducer = mr,
      mount_state = mount0, initial_reducer = True,
      mount_subscribed = False, slice_path_free = False,
      dispatched = [],
      registry = registry0 @ [fid], microtasks = [], awaiting_initial = False,
      next_ref = ref0, producer_calls = Suc 0\<rparr>"
  have d: "mount_dispatch (seeding_action fid v) ?w' =
           ?w'\<lparr>dispatched := dispatched ?w' @ [seeding_action fid v],
             facade_state := v,
             reduxStoreStateSubject := subject_next v (reduxStoreStateSubject ?w'),
             mount_state := v\<rparr>"
    using seeding_reduce[of ?w' v] by simp
  show ?thesis
    unfolding Facade_constructor_def Let_def facade_setState_def
    by (simp add: subject_next_def d)
qed

lemma constructor_promise:
  "Facade_constructor fid mr (PromiseOf p) mount0 registry0 ref0 =
     \<lparr>facadeId = fid, destroyedState = False, bufferedStateChanges = 1,
      facade_state = mount0,
      reduxStoreStateSubject = \<lparr>emitted = [mount0], completed = False\<rparr>,
      destroyedSubject = [], mutatorReducer = mr,
      mount_state = mount0, initial_reducer = True,
      mount_subscribed = True, slice_path_free = False,
      dispatched = [],
      registry = registry0 @ [fid],
      microtasks = (case p of Pending \<Rightarrow> [] | Resolved v \<Rightarrow> [InitialStateResolved v]
                    | Rejected \<Rightarrow> [InitialStateRejected]),
      awaiting_initial = (p = Pending),
      next_ref = ref0, producer_calls = 0\<rparr>"
  unfolding Facade_constructor_def Let_def facade_setState_def
  by (cases p) (simp_all add: subject_next_def)

subsection \<open>The counter of buffered state changes\<close>

lemma initial_state_reducer_frame [simp]:
  "bufferedStateChanges (initial_state_reducer a w) = bufferedStateChanges w"
  "microtasks (initial_state_reducer a w) = microtasks w"
  "awaiting_initial (initial_state_reducer a w) = awaiting_initial w"
  "mount_subscribed (initial_state_reducer a w) = mount_subscribed w"
  by (simp_all add: initial_state_reducer_def facade_setState_def Let_def)

lemma on_mount_change_awaiting [simp]:
  "awaiting_initial (on_mount_change w) = awaiting_initial w"
  by (simp add: on_mount_change_def facade_setState_def Let_def)

lemma balanced_on_mount_change: "balanced w \<Longrightarrow> balanced (on_mount_change w)"
  by (simp add: balanced_def on_mount_change_fields)

lemma balanced_mount_dispatch: "balanced w \<Longrightarrow> balanced (mount_dispatch a w)"
proof -
  assume b: "balanced w"
  let ?w2 = "w\<lparr>dispatched := dispatched w @ [a],
               mount_state := facade_reducer (facadeId w) (destroyedState w) (mutatorReducer w)
                      \<lparr>extractState = (\<lambda>s. s), mp_setState = (\<lambda>s s'. s')\<rparr>
                      (mount_state w) a\<rparr>"
  let ?w3 = "if initial_reducer ?w2 then initial_state_reducer a ?w2 else ?w2"
  have "balanced ?w2" using b by (simp add: balanced_def)
  then have b3: "balanced ?w3" by (simp add: balanced_def)
  have "mount_dispatch a w = (if mount_subscribed ?w3 then on_mount_change ?w3 else ?w3)"
    by (simp add: mount_dispatch_def Let_def)
  with b3 show ?thesis by (simp add: balanced_on_mount_change)
qed

lemma balanced_run_task:
  assumes "balanced (w\<lparr>microtasks := t # ts\<rparr>)"
  shows "balanced (run_task t (w\<lparr>microtasks := ts\<rparr>))"
proof (cases t)
  case (DeliverState s)
  with assms show ?thesis by (simp add: balanced_def Let_def)
next
  case (InitialStateResolved v)
  let ?w = "w\<lparr>microtasks := ts, bufferedStateChanges := bufferedStateChanges w - 1\<rparr>"
  have "balanced ?w" using assms by (simp add: balanced_def)
  then have "balanced (mount_dispatch (seeding_action (facadeId ?w) v) ?w)"
    by (rule balanced_mount_dispatch)
  moreover have "mount_dispatch (seeding_action (facadeId w) v) (w\<lparr>microtasks := ts\<rparr>)
        = (mount_dispatch (seeding_action (facadeId ?w) v) ?w)
            \<lparr>bufferedStateChanges :=
               bufferedStateChanges (mount_dispatch (seeding_action (facadeId ?w) v) ?w) + 1\<rparr>"
    by (simp add: mount_dispatch_def Let_def initial_state_reducer_def facade_setState_def
          on_mount_change_def)
  ultimately show ?thesis using InitialStateResolved
    by (simp add: balanced_def Let_def)
next
  case InitialStateRejected
  with assms show ?thesis by (simp add: balanced_def)
next
  case InitialStateFinally
  with assms show ?thesis by (simp add: balanced_def)
qed

lemma balanced_run_microtask: "balanced w \<Longrightarrow> balanced (run_microtask w)"
proof (cases "microtasks w")
  case Nil
  assume "balanced w"
  with Nil show ?thesis by (simp add: run_microtask_def)
next
  case (Cons t ts)
  assume "balanced w"
  with Cons have "balanced (w\<lparr>microtasks := t # ts\<rparr>)" by (simp add: balanced_def)
  then have "balanced (run_task t (w\<lparr>microtasks := ts\<rparr>))" by (rule balanced_run_task)
  with Cons show ?thesis by (simp add: run_microtask_def)
qed

lemma balanced_step: "balanced w \<Longrightarrow> balanced (step e w)"
proof (cases e)
  case (RootChanged v)
  assume "balanced w"
  then have "balanced (w\<lparr>mount_state := v\<rparr>)" by (simp add: balanced_def)
  with RootChanged show ?thesis by (simp add: Let_def balanced_on_mount_change)
next
  case RunMicrotask
  assume "balanced w"
  with RunMicrotask show ?thesis by (simp add: balanced_run_microtask)
next
  case (Command m args)
  assume "balanced w"
  with Command show ?thesis by (simp add: command_def balanced_mount_dispatch)
next
  case (PromiseSettles p)
  assume "balanced w"
  with PromiseSettles show ?thesis
    by (cases p) (auto simp: settle_initial_def balanced_def)
next
  case Destroy
  assume "balanced w"
  with Destroy show ?thesis by (simp add: destroy_def Let_def balanced_def)
qed

lemma balanced_run: "balanced w \<Longrightarrow> balanced (run evs w)"
  unfolding run_def by (induction evs arbitrary: w) (simp_all add: balanced_step)

lemma balanced_constructor:
  "balanced (Facade_constructor fid mr init mount0 registry0 ref0)"
proof (cases init)
  case (Literal v)
  show ?thesis
  proof (cases "v = RUndefined")
    case True
    with Literal show ?thesis
      by (simp add: Facade_constructor_def Let_def facade_setState_def balanced_def)
  next
    case False
    with Literal show ?thesis by (simp add: constructor_literal balanced_def)
  qed
next
  case (Producer v)
  then show ?thesis by (simp add: constructor_producer balanced_def)
next
  case (PromiseOf p)
  then show ?thesis by (cases p) (simp_all add: constructor_promise balanced_def)
qed

lemma outstanding_has_buffered:
  assumes "balanced w" and "continuation_outstanding w"
  shows "hasBufferedStateChanges w"
proof -
  from assms(2) have "awaiting_initial w \<or> microtasks w \<noteq> []"
    by (auto simp: continuation_outstanding_def list_ex_iff)
  with assms(1) show ?thesis
    by (cases "microtasks w") (auto simp: balanced_def hasBufferedStateChanges_def)
qed

lemma resolved_run:
  fixes fid mr v mount0 registry0 ref0
  defines "w \<equiv> Facade_constructor fid mr (PromiseOf (Resolved v)) mount0 registry0 ref0"
  shows "dispatched (run [RunMicrotask] w) = [seeding_action fid v]"
    and "microtasks (run [RunMicrotask] w)
           = [DeliverState (ObjRef ref0 (own_props v)), InitialStateFinally]"
    and "microtasks (run [RunMicrotask, RunMicrotask] w) = [InitialStateFinally]"
    and "microtasks (run [RunMicrotask, RunMicrotask, RunMicrotask] w) = []"
    and "bufferedStateChanges (run [RunMicrotask, RunMicrotask, RunMicrotask] w) = 0"
    and "facade_state (run [RunMicrotask, RunMicrotask, RunMicrotask] w) = ObjRef ref0 (own_props v)"
    and "mount_state (run [RunMicrotask, RunMicrotask, RunMicrotask] w) = v"
    and "emitted (reduxStoreStateSubject (run [RunMicrotask, RunMicrotask, RunMicrotask] w))
           = [mount0, v, ObjRef ref0 (own_props v)]"
proof -
  let ?c = "ObjRef ref0 (own_props v)"
  let ?w0 = "\<lparr>facadeId = fid, destroyedState = False, bufferedStateChanges = 1,
      facade_state = mount0,
      reduxStoreStateSubject = \<lparr>emitted = [mount0], completed = False\<rparr>,
      destroyedSubject = [], mutatorReducer = mr,
      mount_state = mount0, initial_reducer = True,
      mount_subscribed = True, slice_path_free = False,
      dispatched = [],
      registry = registry0 @ [fid],
      microtasks = [],
      awaiting_initial = False,
      next_ref = ref0, producer_calls = 0\<rparr>"
  let ?w1 = "\<lparr>facadeId = fid, destroyedState = False, bufferedStateChanges = 2,
      facade_state = ?c,
      reduxStoreStateSubject = \<lparr>emitted = [mount0, v], completed = False\<rparr>,
      destroyedSubject = [], mutatorReducer = mr,
      mount_state = v, initial_reducer = True,
      mount_subscribed = True, slice_path_free = False,
      dispatched = [seeding_action fid v],
      registry = registry0 @ [fid],
      microtasks = [DeliverState ?c, InitialStateFinally],
      awaiting_initial = False,
      next_ref = Suc ref0, producer_calls = 0\<rparr>"
  have w: "w = ?w0\<lparr>microtasks := [InitialStateResolved v]\<rparr>"
    by (simp add: w_def constructor_promise)
  have d: "mount_dispatch (seeding_action fid v) ?w0 =
           on_mount_change
             (?w0\<lparr>dispatched := dispatched ?w0 @ [seeding_action fid v],
                facade_state := v,
                reduxStoreStateSubject := subject_next v (reduxStoreStateSubject ?w0),
                mount_state := v\<rparr>)"
    using seeding_reduce_subscribed[of ?w0 v] by simp
  have r1: "run [RunMicrotask] w = ?w1"
    by (simp add: run_def run_microtask_def w Let_def d on_mount_change_def
          facade_setState_def subject_next_def)
  have r2: "run [RunMicrotask, RunMicrotask] w = run [RunMicrotask] ?w1"
    using r1 by (simp add: run_def)
  have r2': "run [RunMicrotask] ?w1 =
      ?w1\<lparr>microtasks := [InitialStateFinally], bufferedStateChanges := 1,
           reduxStoreStateSubject := \<lparr>emitted = [mount0, v, ?c], completed = False\<rparr>\<rparr>"
    by (simp add: run_def run_microtask_def Let_def subject_next_def)
  have r3: "run [RunMicrotask, RunMicrotask, RunMicrotask] w =
      ?w1\<lparr>microtasks := [], bufferedStateChanges := 0,
           reduxStoreStateSubject := \<lparr>emitted = [mount0, v, ?c], completed = False\<rparr>\<rparr>"
    using r1 r2' by (simp add: run_def run_microtask_def)
  show "dispatched (run [RunMicrotask] w) = [seeding_action fid v]" by (simp add: r1)
  show "microtasks (run [RunMicrotask] w) = [DeliverState ?c, InitialStateFinally]"
    by (simp add: r1)
  show "microtasks (run [RunMicrotask, RunMicrotask] w) = [InitialStateFinally]"
    by (simp add: r2 r2')
  show "microtasks (run [RunMicrotask, RunMicrotask, RunMicrotask] w) = []" by (simp add: r3)
  show "bufferedStateChanges (run [RunMicrotask, RunMicrotask, RunMicrotask] w) = 0"
    by (simp add: r3)
  show "facade_state (run [RunMicrotask, RunMicrotask, RunMicrotask] w) = ?c" by (simp add: r3)
  show "mount_state (run [RunMicrotask, RunMicrotask, RunMicrotask] w) = v" by (simp add: r3)
  show "emitted (reduxStoreStateSubject (run [RunMicrotask, RunMicrotask, RunMicrotask] w))
           = [mount0, v, ?c]" by (simp add: r3)
qed

text \<open>
  Claim C6 (seeding of the initial state). With a promise as the initial state the
  constructor returns with nothing dispatched, the state still that of the mount
  point, and \<open>hasBufferedStateChanges()\<close> true. After any events whatever,
  \<open>hasBufferedStateChanges()\<close> is true as long as the continuation of the promise is
  outstanding. A pending promise that resolves leaves the facade as one constructed
  with the resolved promise: the first microtask dispatches the seeding action, and
  when the third (\<open>finally\<close>) has run the continuation is done, the flag is false and
  the state is a copy of the resolved value. With a value other than \<open>undefined\<close> or
  with a producer function the constructor itself dispatches the seeding action: on
  return the state is the value, nothing is buffered or queued, and the producer has
  been invoked once.
\<close>

theorem initial_state_seeding:
  "(hasBufferedStateChanges (Facade_constructor fid mr (PromiseOf p) mount0 registry0 ref0)
    \<and> dispatched (Facade_constructor fid mr (PromiseOf p) mount0 registry0 ref0) = []
    \<and> facade_state (Facade_constructor fid mr (PromiseOf p) mount0 registry0 ref0) = mount0)
   \<and> (continuation_outstanding (run evs (Facade_constructor fid mr init mount0 registry0 ref0))
        \<longrightarrow> hasBufferedStateChanges
              (run evs (Facade_constructor fid mr init mount0 registry0 ref0)))
   \<and> settle_initial (Resolved v) (Facade_constructor fid mr (PromiseOf Pending) mount0 registry0 ref0)
       = Facade_constructor fid mr (PromiseOf (Resolved v)) mount0 registry0 ref0
   \<and> (dispatched (run [RunMicrotask]
          (Facade_constructor fid mr (PromiseOf (Resolved v)) mount0 registry0 ref0))
         = [seeding_action fid v]
       \<and> continuation_outstanding (run [RunMicrotask]
            (Facade_constructor fid mr (PromiseOf (Resolved v)) mount0 registry0 ref0))
       \<and> continuation_outstanding (run [RunMicrotask, RunMicrotask]
            (Facade_constructor fid mr (PromiseOf (Resolved v)) mount0 registry0 ref0))
       \<and> \<not> continuation_outstanding (run [RunMicrotask, RunMicrotask, RunMicrotask]
            (Facade_constructor fid mr (PromiseOf (Resolved v)) mount0 registry0 ref0))
       \<and> \<not> hasBufferedStateChanges (run [RunMicrotask, RunMicrotask, RunMicrotask]
            (Facade_constructor fid mr (PromiseOf (Resolved v)) mount0 registry0 ref0))
       \<and> facade_state (run [RunMicrotask, RunMicrotask, RunMicrotask]
            (Facade_constructor fid mr (PromiseOf (Resolved v)) mount0 registry0 ref0))
         = ObjRef ref0 (own_props v)
       \<and> mount_state (run [RunMicrotask, RunMicrotask, RunMicrotask]
            (Facade_constructor fid mr (PromiseOf (Resolved v)) mount0 registry0 ref0)) = v)
   \<and> (v \<noteq> RUndefined \<longrightarrow>
        dispatched (Facade_constructor fid mr (Literal v) mount0 registry0 ref0)
          = [seeding_action fid v]
        \<and> facade_state (Facade_constructor fid mr (Literal v) mount0 registry0 ref0) = v
        \<and> mount_state (Facade_constructor fid mr (Literal v) mount0 registry0 ref0) = v
        \<and> \<not> hasBufferedStateChanges (Facade_constructor fid mr (Literal v) mount0 registry0 ref0)
        \<and> microtasks (Facade_constructor fid mr (Literal v) mount0 registry0 ref0) = []
        \<and> producer_calls (Facade_constructor fid mr (Literal v) mount0 registry0 ref0) = 0)
   \<and> (dispatched (Facade_constructor fid mr (Producer v) mount0 registry0 ref0)
         = [seeding_action fid v]
       \<and> facade_state (Facade_constructor fid mr (Producer v) mount0 registry0 ref0) = v
       \<and> mount_state (Facade_constructor fid mr (Producer v) mount0 registry0 ref0) = v
       \<and> \<not> hasBufferedStateChanges (Facade_constructor fid mr (Producer v) mount0 registry0 ref0)
       \<and> microtasks (Facade_constructor fid mr (Producer v) mount0 registry0 ref0) = []
       \<and> producer_calls (Facade_constructor fid mr (Producer v) mount0 registry0 ref0) = 1)"
proof -
  let ?P = "Facade_constructor fid mr (PromiseOf p) mount0 registry0 ref0"
  let ?R = "Facade_constructor fid mr (PromiseOf (Resolved v)) mount0 registry0 ref0"
  have 1: "hasBufferedStateChanges ?P \<and> dispatched ?P = [] \<and> facade_state ?P = mount0"
    by (simp add: constructor_promise hasBufferedStateChanges_def)
  have 2: "continuation_outstanding (run evs (Facade_constructor fid mr init mount0 registry0 ref0))
        \<longrightarrow> hasBufferedStateChanges
              (run evs (Facade_constructor fid mr init mount0 registry0 ref0))"
    using outstanding_has_buffered[OF balanced_run[OF balanced_constructor]] by blast
  have 3: "settle_initial (Resolved v)
             (Facade_constructor fid mr (PromiseOf Pending) mount0 registry0 ref0) = ?R"
    by (simp add: constructor_promise settle_initial_def)
  note rr = resolved_run[of fid mr v mount0 registry0 ref0]
  have b1: "balanced (run es ?R)" for es
    by (rule balanced_run[OF balanced_constructor])
  have a3: "\<not> awaiting_initial (run [RunMicrotask, RunMicrotask, RunMicrotask] ?R)"
    using b1[of "[RunMicrotask, RunMicrotask, RunMicrotask]"] rr(4,5)
    by (simp add: balanced_def split: if_splits)
  have 4: "dispatched (run [RunMicrotask] ?R) = [seeding_action fid v]
       \<and> continuation_outstanding (run [RunMicrotask] ?R)
       \<and> continuation_outstanding (run [RunMicrotask, RunMicrotask] ?R)
       \<and> \<not> continuation_outstanding (run [RunMicrotask, RunMicrotask, RunMicrotask] ?R)
       \<and> \<not> hasBufferedStateChanges (run [RunMicrotask, RunMicrotask, RunMicrotask] ?R)
       \<and> facade_state (run [RunMicrotask, RunMicrotask, RunMicrotask] ?R)
           = ObjRef ref0 (own_props v)
       \<and> mount_state (run [RunMicrotask, RunMicrotask, RunMicrotask] ?R) = v"
    using rr a3
    by (simp add: continuation_outstanding_def is_initial_task_def hasBufferedStateChanges_def)
  have 5: "v \<noteq> RUndefined \<longrightarrow>
        dispatched (Facade_constructor fid mr (Literal v) mount0 registry0 ref0)
          = [seeding_action fid v]
        \<and> facade_state (Facade_constructor fid mr (Literal v) mount0 registry0 ref0) = v
        \<and> mount_state (Facade_constructor fid mr (Literal v) mount0 registry0 ref0) = v
        \<and> \<not> hasBufferedStateChanges (Facade_constructor fid mr (Literal v) mount0 registry0 ref0)
        \<and> microtasks (Facade_constructor fid mr (Literal v) mount0 registry0 ref0) = []
        \<and> producer_calls (Facade_constructor fid mr (Literal v) mount0 registry0 ref0) = 0"
    by (simp add: constructor_literal hasBufferedStateChanges_def)
  have 6: "dispatched (Facade_constructor fid mr (Producer v) mount0 registry0 ref0)
         = [seeding_action fid v]
       \<and> facade_state (Facade_constructor fid mr (Producer v) mount0 registry0 ref0) = v
       \<and> mount_state (Facade_constructor fid mr (Producer v) mount0 registry0 ref0) = v
       \<and> \<not> hasBufferedStateChanges (Facade_constructor fid mr (Producer v) mount0 registry0 ref0)
       \<and> microtasks (Facade_constructor fid mr (Producer v) mount0 registry0 ref0) = []
       \<and> producer_calls (Facade_constructor fid mr (Producer v) mount0 registry0 ref0) = 1"
    by (simp add: constructor_producer hasBufferedStateChanges_def)
  from 1 2 3 4 5 6 show ?thesis by (intro conjI) blast+
qed


theorem initial_state_seeding_witness:
  "hasBufferedStateChanges promised_facade
   \<and> dispatched promised_facade = []
   \<and> hasBufferedStateChanges (run [RunMicrotask] promised_facade)
   \<and> dispatched (run [RunMicrotask] promised_facade) = [seeding_action ''counter'' a5]
   \<and> \<not> hasBufferedStateChanges (run [RunMicrotask, RunMicrotask, RunMicrotask] promised_facade)
   \<and> facade_state (run [RunMicrotask, RunMicrotask, RunMicrotask] promised_facade)
       = ObjRef 1 [(''a'', RNum 5)]
   \<and> facade_state counter_facade = a5
   \<and> dispatched counter_facade = [seeding_action ''counter'' a5]
   \<and> \<not> hasBufferedStateChanges counter_facade"
proof -
  note t = initial_state_seeding
             [where fid = "''counter''" and mr = "inc_reducer ''counter''" and v = a5
                and ?mount0.0 = RUndefined and ?registry0.0 = "[]" and ?ref0.0 = 1
                and p = "Resolved a5" and init = "PromiseOf (Resolved a5)"
                and evs = "[RunMicrotask]", folded promised_facade_def counter_facade_def]
  have v: "a5 \<noteq> RUndefined" by (simp add: a5_def)
  have o: "own_props a5 = [(''a'', RNum 5)]" by (simp add: a5_def own_props_def)
  from t v o show ?thesis by simp
qed

subsection \<open>Fresh copies\<close>


lemma counter_facade_eq:
  "counter_facade =
     \<lparr>facadeId = ''counter'', destroyedState = False, bufferedStateChanges = 0,
      facade_state = a5,
      reduxStoreStateSubject = \<lparr>emitted = [RUndefined, a5], completed = False\<rparr>,
      destroyedSubject = [], mutatorReducer = inc_reducer ''counter'',
      mount_state = a5, initial_reducer = True,
      mount_subscribed = True, slice_path_free = False,
      dispatched = [seeding_action ''counter'' a5],
      registry = [''counter''], microtasks = [], awaiting_initial = False,
      next_ref = 1, producer_calls = 0\<rparr>"
proof -
  have "a5 \<noteq> RUndefined" by (simp add: a5_def)
  then show ?thesis by (simp add: counter_facade_def constructor_literal)
qed


text \<open>
  Claim C8 (\<open>destroy()\<close>), as the code has it. A call of \<open>destroy()\<close> ends the
  subscription to the mount point, frees its path, marks the facade destroyed,
  completes the stream of states without a further value, removes the facade from the
  registry, and passes one \<open>true\<close> to the subject behind \<open>observeDestroyed()\<close>. The
  method has no guard: a second call leaves all of that as it is and passes another
  \<open>true\<close>.
\<close>

theorem destroy_effects:
  "\<not> mount_subscribed (destroy w)
   \<and> slice_path_free (destroy w)
   \<and> isDestroyed (destroy w)
   \<and> completed (reduxStoreStateSubject (destroy w))
   \<and> emitted (reduxStoreStateSubject (destroy w)) = emitted (reduxStoreStateSubject w)
   \<and> observeDestroyed (destroy w) = observeDestroyed w @ [True]
   \<and> facadeId w \<notin> set (registry (destroy w))
   \<and> destroy (destroy w) = (destroy w)\<lparr>destroyedSubject := destroyedSubject (destroy w) @ [True]\<rparr>"
  by (simp add: destroy_def Let_def isDestroyed_def observeDestroyed_def subject_complete_def)

text \<open>
  The claim as stated fails: after two calls a subscriber of \<open>observeDestroyed()\<close> has
  received two notifications, so the second call is not without effect.
\<close>

theorem destroyed_notification_fires_twice:
  "observeDestroyed (destroy counter_facade) = [True]
   \<and> observeDestroyed (destroy (destroy counter_facade)) = [True, True]
   \<and> destroy (destroy counter_facade) \<noteq> destroy counter_facade"
proof -
  have 1: "observeDestroyed (destroy counter_facade) = [True]"
    by (simp add: destroy_def Let_def observeDestroyed_def counter_facade_eq)
  have 2: "observeDestroyed (destroy (destroy counter_facade)) = [True, True]"
    by (simp add: destroy_def Let_def observeDestroyed_def counter_facade_eq)
  from 1 2 have "observeDestroyed (destroy (destroy counter_facade))
                   \<noteq> observeDestroyed (destroy counter_facade)" by simp
  then have "destroy (destroy counter_facade) \<noteq> destroy counter_facade" by auto
  with 1 2 show ?thesis by simp
qed

end
